theory Spec2Isabelle
  imports Complex_Main "HOL-Library.Multiset"
begin

section \<open>PPO training loop of the score-following game\<close>

text \<open>
  A shallow embedding of \<^verbatim>\<open>PPOAgent.train\<close> and its helpers
  (\<^verbatim>\<open>algorithms/ppo/ppo.py\<close>). Numbers are real numbers: rounding of the
  32-bit floats is not modelled, and a float that is no number (the NaN PyTorch produces
  for \<open>0 / 0\<close>, for the mean of an empty tensor and for the unbiased standard deviation
  of fewer than two entries) is the value \<open>None\<close> of \<open>real option\<close>.

  A tensor of shape \<open>(k, n_worker, 1)\<close> is a list of \<open>k\<close> rows with one real per worker;
  an observation of one worker is the list of its entries (the trailing dimensions
  flattened), so an observation tensor of shape \<open>(t_max + 1, n_worker, ...)\<close> is a list
  of slots, each a list of per-worker observations. Row-wise operations are written with
  \<open>map2\<close>; PyTorch raises where shapes disagree, so statements about rows assume the
  shapes that the tensors are allocated with.
\<close>

subsection \<open>Tensors and NaN-aware scalars\<close>

type_synonym vec = "real list"
type_synonym obs = "real list"
type_synonym loss = "real option"

definition vadd :: "vec \<Rightarrow> vec \<Rightarrow> vec" where
  "vadd a b = map2 (+) a b"

definition vsub :: "vec \<Rightarrow> vec \<Rightarrow> vec" where
  "vsub a b = map2 (-) a b"

definition vmul :: "vec \<Rightarrow> vec \<Rightarrow> vec" where
  "vmul a b = map2 (*) a b"

definition smul :: "real \<Rightarrow> vec \<Rightarrow> vec" where
  "smul c a = map (\<lambda>x. c * x) a"

text \<open>\<^verbatim>\<open>tensor.mean()\<close>: the mean of an empty tensor is NaN.\<close>

definition tmean :: "real list \<Rightarrow> real option" where
  "tmean xs = (if xs = [] then None else Some (sum_list xs / real (length xs)))"

text \<open>
  \<^verbatim>\<open>tensor.std()\<close>: the unbiased estimate (Bessel's correction), which divides by
  \<open>N - 1\<close>; with fewer than two entries it is NaN.
\<close>

definition tstd :: "real list \<Rightarrow> real option" where
  "tstd xs =
     (if length xs \<le> 1 then None
      else Some (sqrt (sum_list (map (\<lambda>x. (x - sum_list xs / real (length xs))\<^sup>2) xs)
                        / real (length xs - 1))))"

text \<open>Arithmetic where an operand may be NaN; NaN propagates.\<close>

definition nmul :: "real \<Rightarrow> real option \<Rightarrow> real option" where
  "nmul r a = map_option (\<lambda>x. r * x) a"

definition nmin :: "real option \<Rightarrow> real option \<Rightarrow> real option" where
  "nmin a b = (case a of None \<Rightarrow> None
               | Some x \<Rightarrow> (case b of None \<Rightarrow> None | Some y \<Rightarrow> Some (min x y)))"

definition nneg :: "real option \<Rightarrow> real option" where
  "nneg a = map_option uminus a"

fun nsum :: "real option list \<Rightarrow> real option" where
  "nsum [] = Some 0"
| "nsum (a # as) = (case a of None \<Rightarrow> None
                    | Some x \<Rightarrow> (case nsum as of None \<Rightarrow> None | Some y \<Rightarrow> Some (x + y)))"

definition nmean :: "real option list \<Rightarrow> real option" where
  "nmean xs = (if xs = [] then None
               else map_option (\<lambda>t. t / real (length xs)) (nsum xs))"

text \<open>\<^verbatim>\<open>tensor.clamp(lo, hi)\<close>.\<close>

definition clamp :: "real \<Rightarrow> real \<Rightarrow> real \<Rightarrow> real" where
  "clamp lo hi x = min (max x lo) hi"

subsection \<open>Soft-max helpers of the agent\<close>

definition softmax :: "real list \<Rightarrow> real list" where
  "softmax row = map (\<lambda>x. exp x / sum_list (map exp row)) row"

definition log_softmax :: "real list \<Rightarrow> real list" where
  "log_softmax row = map (\<lambda>x. ln (exp x / sum_list (map exp row))) row"

text \<open>\<^verbatim>\<open>_get_log_probs\<close>: \<open>log_softmax(policy).gather(1, actions)\<close>.\<close>

definition get_log_probs :: "real list list \<Rightarrow> nat list \<Rightarrow> vec" where
  "get_log_probs policy acts = map2 (\<lambda>row a. log_softmax row ! a) policy acts"

text \<open>\<^verbatim>\<open>_calc_entropy\<close>: \<open>-(log_probs * probabilities).sum(-1).mean()\<close>.\<close>

definition calc_entropy :: "real list list \<Rightarrow> loss" where
  "calc_entropy policy =
     map_option uminus
       (tmean (map (\<lambda>row. sum_list (map2 (*) (log_softmax row) (softmax row))) policy))"

subsection \<open>The agent's parameters and its collaborators\<close>

text \<open>
  The fields of \<^verbatim>\<open>PPOAgent\<close>. The sizes and counts are natural numbers;
  \<open>obs_sizes\<close> gives, for every observation space of the environment, the number of
  entries of one observation. \<^verbatim>\<open>use_cuda\<close> only chooses the device of the tensors
  and is left out.
\<close>

record config =
  t_max :: nat
  n_worker :: nat
  gamma :: real
  gae_lambda :: real
  ppo_epoch :: nat
  epsilon :: real
  batch_size :: nat
  obs_sizes :: "nat list"

text \<open>
  The collaborators are black boxes: the vectorised environment, the network with its
  optimizer, and the two random generators (the multinomial draw of
  \<^verbatim>\<open>_sample_action\<close> and the permutation \<^verbatim>\<open>torch.randperm\<close> behind
  \<^verbatim>\<open>SubsetRandomSampler\<close>). Each is a function on one opaque world state \<open>'w\<close>,
  which it may change. An environment returns, per observation space, one observation
  per worker.
\<close>

record 'w collaborators =
  env_reset :: "'w \<Rightarrow> obs list list \<times> 'w"
  env_step :: "nat list \<Rightarrow> 'w \<Rightarrow> (obs list list \<times> real list \<times> bool list) \<times> 'w"
  model_forward :: "obs list list \<Rightarrow> 'w \<Rightarrow> (real list list \<times> real list) \<times> 'w"
  model_forward_value :: "obs list list \<Rightarrow> 'w \<Rightarrow> real list \<times> 'w"
  model_update :: "loss list \<Rightarrow> 'w \<Rightarrow> 'w"
  multinomial :: "real list list \<Rightarrow> 'w \<Rightarrow> nat list \<times> 'w"
  randperm :: "nat \<Rightarrow> 'w \<Rightarrow> nat list \<times> 'w"
  net_mode :: "bool \<Rightarrow> 'w \<Rightarrow> 'w"
  get_lr :: "'w \<Rightarrow> real"
  save_network :: "string option \<Rightarrow> string \<Rightarrow> 'w \<Rightarrow> 'w"

text \<open>
  The arguments of \<^verbatim>\<open>train\<close>; \<open>max_updates\<close> and the intervals are Python
  integers. An absent evaluator, scheduler or score name is \<open>None\<close>. The evaluator
  returns its statistics as a dictionary. The log writer only receives scalars and is
  left out.
\<close>

record 'w train_args =
  max_updates :: int
  log_interval :: int
  evaluator :: "(int \<Rightarrow> 'w \<Rightarrow> (string \<Rightarrow> real option) \<times> 'w) option"
  eval_interval :: int
  lr_scheduler :: "(real \<Rightarrow> 'w \<Rightarrow> 'w) option"
  score_name :: "string option"
  high_is_better :: bool
  dump_interval :: int
  dump_dir :: "string option"

subsection \<open>The state of a training run\<close>

text \<open>
  The calls that \<^verbatim>\<open>train\<close> makes to its collaborators are recorded in a trace, a
  ghost variable: the start of an update iteration and the end of its body (reached when
  the body neither breaks nor raises), \<^verbatim>\<open>env.reset\<close>,
  \<^verbatim>\<open>env.step\<close>, the construction of a batch sampler (one per epoch), the entry
  into the body of the minibatch loop with its indices, \<^verbatim>\<open>model.update\<close> with
  its three losses, the evaluator, the scheduler and \<^verbatim>\<open>save_network\<close>.
\<close>

datatype event =
    Update_begin int
  | Update_end int
  | Env_reset
  | Env_step "nat list"
  | Sampler_created
  | Minibatch "nat list"
  | Model_update "loss list"
  | Evaluate int
  | Scheduler_step real
  | Save_network string

datatype py_error = ZeroDivisionError | UnboundLocalError | KeyError

text \<open>
  The local variables of \<^verbatim>\<open>train\<close>. \<open>best_score\<close> is \<open>None\<close> while it still is
  the initial infinity; \<open>last_losses\<close> is \<open>None\<close> while the variables
  \<^verbatim>\<open>action_loss\<close>, \<^verbatim>\<open>value_loss\<close> and \<^verbatim>\<open>dist_entropy\<close> are unbound.
  The timing variables only feed \<^verbatim>\<open>print\<close> and are left out.
\<close>

record 'w train_state =
  world :: 'w
  observations :: "obs list list list"
  rewards :: "vec list"
  value_predictions :: "vec list"
  old_log_probs :: "vec list"
  returns :: "vec list"
  actions :: "nat list list"
  masks :: "vec list"
  episode_rewards :: vec
  final_rewards :: vec
  best_score :: "real option"
  steps :: nat
  last_losses :: "(loss \<times> loss \<times> loss) option"
  trace :: "event list"

datatype 'w flow =
    Continue "'w train_state"
  | Break "'w train_state"
  | Raise py_error "'w train_state"

datatype 'w outcome =
    Returned "'w train_state"
  | Raised py_error "'w train_state"

fun flow_state :: "'w flow \<Rightarrow> 'w train_state" where
  "flow_state (Continue s) = s"
| "flow_state (Break s) = s"
| "flow_state (Raise e s) = s"

fun outcome_state :: "'w outcome \<Rightarrow> 'w train_state" where
  "outcome_state (Returned s) = s"
| "outcome_state (Raised e s) = s"

fun returned :: "'w outcome \<Rightarrow> bool" where
  "returned (Returned s) = True"
| "returned (Raised e s) = False"

subsection \<open>Collecting a rollout (lines 88 to 133)\<close>

text \<open>\<^verbatim>\<open>_sample_action\<close>: a multinomial draw from the soft-max of the policy.\<close>

definition sample_action :: "'w collaborators \<Rightarrow> real list list \<Rightarrow> 'w \<Rightarrow> nat list \<times> 'w" where
  "sample_action C policy w = multinomial C (map softmax policy) w"

text \<open>\<open>0.0 if done_ else 1.0\<close> for every worker.\<close>

definition done_masks :: "bool list \<Rightarrow> vec" where
  "done_masks dones = map (\<lambda>d. if d then 0 else 1) dones"

text \<open>
  \<^verbatim>\<open>state_tensor_list[j] *= pt_masks\<close>: the mask of a worker multiplies every entry of
  that worker's observation.
\<close>

definition mask_state :: "vec \<Rightarrow> obs list \<Rightarrow> obs list" where
  "mask_state np_masks st = map2 (\<lambda>ob m. map (\<lambda>x. x * m) ob) st np_masks"

text \<open>\<^verbatim>\<open>for j, obs in enumerate(xs): observations[j][slot].copy_(obs)\<close>.\<close>

definition store_slot :: "nat \<Rightarrow> obs list list \<Rightarrow> obs list list list \<Rightarrow> obs list list list" where
  "store_slot slot xs observations0 =
     fold (\<lambda>(j, ob) acc. acc[j := (acc ! j)[slot := ob]]) (enumerate 0 xs) observations0"

definition rollout_step :: "'w collaborators \<Rightarrow> 'w train_state \<Rightarrow> nat \<Rightarrow> 'w train_state" where
  "rollout_step C s step =
     (case model_forward C (map (\<lambda>ob. ob ! step) (observations s)) (world s) of
        ((policy, val), w1) \<Rightarrow>
     (case sample_action C policy w1 of
        (acts, w2) \<Rightarrow>
     (case env_step C acts w2 of
        ((state, reward, dones), w3) \<Rightarrow>
       let log_probs = get_log_probs policy acts;
           episode_rewards1 = vadd (episode_rewards s) reward;
           np_masks = done_masks dones;
           state_tensor_list = map (mask_state np_masks) state;
           final_rewards1 = vmul (final_rewards s) np_masks;
           final_rewards2 = vadd final_rewards1 (vmul (map (\<lambda>m. 1 - m) np_masks) episode_rewards1)
       in s\<lparr> world := w3,
             steps := steps s + 1,
             observations := store_slot (step + 1) state_tensor_list (observations s),
             actions := (actions s)[step := acts],
             value_predictions := (value_predictions s)[step := val],
             old_log_probs := (old_log_probs s)[step := log_probs],
             rewards := (rewards s)[step := reward],
             masks := (masks s)[step := np_masks],
             final_rewards := final_rewards2,
             episode_rewards := vmul episode_rewards1 np_masks,
             trace := trace s @ [Env_step acts] \<rparr>)))"

definition rollout :: "'w collaborators \<Rightarrow> config \<Rightarrow> 'w train_state \<Rightarrow> 'w train_state" where
  "rollout C cfg s = foldl (rollout_step C) s [0..<t_max cfg]"

subsection \<open>Returns by generalized advantage estimation (lines 136 to 142)\<close>

text \<open>
  One pass of the loop body. \<open>gae\<close> starts as the Python number \<open>0\<close> (here \<open>None\<close>),
  which the first multiplication broadcasts over the workers.
\<close>

definition gae_step ::
  "real \<Rightarrow> real \<Rightarrow> vec list \<Rightarrow> vec list \<Rightarrow> vec list \<Rightarrow> vec option \<times> vec list \<Rightarrow> nat
     \<Rightarrow> vec option \<times> vec list" where
  "gae_step g l rews vps ms st step =
     (case st of (gae, rets) \<Rightarrow>
        let delta = vsub (vadd (rews ! step) (vmul (smul g (vps ! (step + 1))) (ms ! step)))
                         (vps ! step);
            carried = (case gae of None \<Rightarrow> map (\<lambda>x. x * 0) (smul (g * l) (ms ! step))
                       | Some gv \<Rightarrow> vmul (smul (g * l) (ms ! step)) gv);
            gae' = vadd delta carried
        in (Some gae', rets[step := vadd gae' (vps ! step)]))"

definition calculate_returns :: "'w collaborators \<Rightarrow> config \<Rightarrow> 'w train_state \<Rightarrow> 'w train_state" where
  "calculate_returns C cfg s =
     (case model_forward_value C (map last (observations s)) (world s) of
        (v, w1) \<Rightarrow>
          let vps = (value_predictions s)[length (value_predictions s) - 1 := v]
          in s\<lparr> world := w1,
                value_predictions := vps,
                returns := snd (foldl (gae_step (gamma cfg) (gae_lambda cfg) (rewards s) vps (masks s))
                                      (None, returns s) (rev [0..<t_max cfg])) \<rparr>)"

subsection \<open>Normalized advantages (lines 144 and 145)\<close>

text \<open>
  \<open>(a - mean) / std\<close> for one entry \<open>a\<close> of the tensor with entries \<open>flat\<close>. The
  result is NaN when the mean or the standard deviation is, and when the standard
  deviation is \<open>0\<close> (then \<open>a - mean\<close> is \<open>0\<close> as well, and \<open>0 / 0\<close> is NaN).
\<close>

definition normalize_entry :: "real list \<Rightarrow> real \<Rightarrow> real option" where
  "normalize_entry flat a =
     (case tmean flat of None \<Rightarrow> None
      | Some m \<Rightarrow>
         (case tstd flat of None \<Rightarrow> None
          | Some sd \<Rightarrow> if sd = 0 then None else Some ((a - m) / sd)))"

definition raw_advantages :: "'w train_state \<Rightarrow> vec list" where
  "raw_advantages s = map2 vsub (butlast (returns s)) (butlast (value_predictions s))"

definition normalized_advantages :: "'w train_state \<Rightarrow> real option list list" where
  "normalized_advantages s =
     (let advantages = raw_advantages s
      in map (map (normalize_entry (concat advantages))) advantages)"

subsection \<open>One minibatch (lines 150 to 174)\<close>

text \<open>
  \<open>x.view(-1, ...)[indices]\<close>: the first two dimensions are flattened row by row, then
  the rows named by \<open>indices\<close> are gathered.
\<close>

definition gather :: "'a list list \<Rightarrow> nat list \<Rightarrow> 'a list" where
  "gather x indices = map (\<lambda>i. concat x ! i) indices"

definition minibatch ::
  "'w collaborators \<Rightarrow> config \<Rightarrow> real option list list \<Rightarrow> 'w train_state \<Rightarrow> nat list
     \<Rightarrow> 'w train_state" where
  "minibatch C cfg advantages s indices =
     (let states_batch = map (\<lambda>ob. gather (butlast ob) indices) (observations s);
          actions_batch = gather (actions s) indices;
          return_batch = gather (butlast (returns s)) indices;
          old_log_probs_batch = gather (old_log_probs s) indices
      in case model_forward C states_batch (world s) of
        ((policy, vals), w1) \<Rightarrow>
          let action_log_probabilities = get_log_probs policy actions_batch;
              ratio = map exp (vsub action_log_probabilities old_log_probs_batch);
              advantage_target = gather advantages indices;
              surr1 = map2 nmul ratio advantage_target;
              surr2 = map2 nmul (map (clamp (1 - epsilon cfg) (1 + epsilon cfg)) ratio)
                                advantage_target;
              action_loss = nneg (nmean (map2 nmin surr1 surr2));
              dist_entropy = calc_entropy policy;
              value_loss = tmean (map (\<lambda>d. d\<^sup>2) (vsub return_batch vals))
          in s\<lparr> world := model_update C [action_loss, value_loss, dist_entropy] w1,
                last_losses := Some (action_loss, value_loss, dist_entropy),
                trace := trace s @ [Minibatch indices,
                                    Model_update [action_loss, value_loss, dist_entropy]] \<rparr>)"

subsection \<open>The samplers (PyTorch) and the epochs (lines 146 to 174)\<close>

text \<open>
  \<^verbatim>\<open>BatchSampler.__iter__\<close> with \<^verbatim>\<open>drop_last=False\<close>: indices are appended to
  the current batch, a batch that reaches the batch size is yielded, and a non-empty
  rest is yielded at the end.
\<close>

fun batch_sampler :: "nat \<Rightarrow> nat list \<Rightarrow> nat list \<Rightarrow> nat list list" where
  "batch_sampler bs batch [] = (if length batch > 0 then [batch] else [])"
| "batch_sampler bs batch (idx # rest) =
     (if length (batch @ [idx]) = bs then (batch @ [idx]) # batch_sampler bs [] rest
      else batch_sampler bs (batch @ [idx]) rest)"

text \<open>
  \<^verbatim>\<open>SubsetRandomSampler(indices).__iter__\<close>: the indices in the order of a random
  permutation of their positions.
\<close>

definition subset_random_sampler :: "'w collaborators \<Rightarrow> nat list \<Rightarrow> 'w \<Rightarrow> nat list \<times> 'w" where
  "subset_random_sampler C indices w =
     (case randperm C (length indices) w of (perm, w1) \<Rightarrow> (map (\<lambda>i. indices ! i) perm, w1))"

definition epoch :: "'w collaborators \<Rightarrow> config \<Rightarrow> real option list list \<Rightarrow> 'w train_state
     \<Rightarrow> 'w train_state" where
  "epoch C cfg advantages s =
     (case subset_random_sampler C [0..<n_worker cfg * t_max cfg] (world s) of
        (sampled, w1) \<Rightarrow>
          foldl (minibatch C cfg advantages)
                (s\<lparr> world := w1, trace := trace s @ [Sampler_created] \<rparr>)
                (batch_sampler (batch_size cfg * n_worker cfg) [] sampled))"

definition ppo_update :: "'w collaborators \<Rightarrow> config \<Rightarrow> 'w train_state \<Rightarrow> 'w train_state" where
  "ppo_update C cfg s =
     foldl (\<lambda>s' _. epoch C cfg (normalized_advantages s) s') s [0..<ppo_epoch cfg]"

subsection \<open>The end of an iteration (lines 176 to 218)\<close>

text \<open>\<^verbatim>\<open>observations[j][0].copy_(obs[-1])\<close> for every observation tensor.\<close>

definition save_latest :: "'w train_state \<Rightarrow> 'w train_state" where
  "save_latest s = s\<lparr> observations := map (\<lambda>ob. ob[0 := last ob]) (observations s) \<rparr>"

text \<open>
  \<^verbatim>\<open>store_model\<close>; joining the directory and the file name is left to
  \<open>save_network\<close>.
\<close>

definition store_model :: "'w collaborators \<Rightarrow> string \<Rightarrow> string option \<Rightarrow> 'w train_state
     \<Rightarrow> 'w train_state" where
  "store_model C name store_dir s =
     s\<lparr> world := save_network C store_dir name (world s),
        trace := trace s @ [Save_network name] \<rparr>"

function show_nat :: "nat \<Rightarrow> string" where
  "show_nat n = (if n < 10 then [char_of (48 + n)]
                 else show_nat (n div 10) @ [char_of (48 + n mod 10)])"
  by pat_completeness auto
termination
  by (relation "measure id") auto

definition show_int :: "int \<Rightarrow> string" where
  "show_int i = (if i < 0 then CHR ''-'' # show_nat (nat (- i)) else show_nat (nat i))"

definition dump_phase :: "'w collaborators \<Rightarrow> 'w train_args \<Rightarrow> int \<Rightarrow> 'w train_state \<Rightarrow> 'w flow" where
  "dump_phase C A i s =
     (if dump_interval A = 0 then Raise ZeroDivisionError s
      else if i mod dump_interval A = 0
        then Continue (store_model C (''model_update_'' @ show_int i @ ''.pt'') (dump_dir A) s)
      else Continue s)"

definition improvement_phase :: "'w collaborators \<Rightarrow> 'w train_args \<Rightarrow> real \<Rightarrow> 'w train_state
     \<Rightarrow> 'w train_state" where
  "improvement_phase C A score s =
     (let improvement =
            (high_is_better A \<and> (case best_score s of None \<Rightarrow> True | Some b \<Rightarrow> score \<ge> b)) \<or>
            (\<not> high_is_better A \<and> (case best_score s of None \<Rightarrow> True | Some b \<Rightarrow> score \<le> b))
      in if improvement
         then (store_model C ''best_model.pt'' (dump_dir A) s)\<lparr> best_score := Some score \<rparr>
         else s)"

definition evaluation_phase :: "'w collaborators \<Rightarrow> 'w train_args \<Rightarrow> int \<Rightarrow> 'w train_state \<Rightarrow> 'w flow" where
  "evaluation_phase C A i s =
     (case evaluator A of
        None \<Rightarrow> dump_phase C A i s
      | Some ev \<Rightarrow>
          if eval_interval A = 0 then Raise ZeroDivisionError s
          else if i mod eval_interval A \<noteq> 0 then dump_phase C A i s
          else
            (case ev (i div eval_interval A) (net_mode C False (world s)) of
               (stats, w1) \<Rightarrow>
                 let s1 = s\<lparr> world := net_mode C True w1,
                             trace := trace s @ [Evaluate (i div eval_interval A)] \<rparr>
                 in (case score_name A of
                       None \<Rightarrow> dump_phase C A i s1
                     | Some name \<Rightarrow>
                        (case stats name of
                           None \<Rightarrow> Raise KeyError s1
                         | Some score \<Rightarrow>
                            (case lr_scheduler A of
                               None \<Rightarrow> dump_phase C A i (improvement_phase C A score s1)
                             | Some sched \<Rightarrow>
                                 let s2 = s1\<lparr> world := sched score (world s1),
                                             trace := trace s1 @ [Scheduler_step score] \<rparr>
                                 in if get_lr C (world s2) = 0 then Break s2
                                    else dump_phase C A i (improvement_phase C A score s2))))))"

definition logging_phase :: "'w collaborators \<Rightarrow> 'w train_args \<Rightarrow> int \<Rightarrow> 'w train_state \<Rightarrow> 'w flow" where
  "logging_phase C A i s =
     (if log_interval A = 0 then Raise ZeroDivisionError s
      else if i mod log_interval A = 0 \<and> last_losses s = None then Raise UnboundLocalError s
      else evaluation_phase C A i s)"

subsection \<open>The update loop and \<^verbatim>\<open>train\<close>\<close>

definition begin_update :: "int \<Rightarrow> 'w train_state \<Rightarrow> 'w train_state" where
  "begin_update i s = s\<lparr> trace := trace s @ [Update_begin i] \<rparr>"

definition update_iteration ::
  "'w collaborators \<Rightarrow> config \<Rightarrow> 'w train_args \<Rightarrow> int \<Rightarrow> 'w train_state \<Rightarrow> 'w flow" where
  "update_iteration C cfg A i s =
     (case logging_phase C A i
             (save_latest
               (ppo_update C cfg
                 (calculate_returns C cfg
                   (rollout C cfg (begin_update i s))))) of
        Continue s' \<Rightarrow> Continue (s'\<lparr> trace := trace s' @ [Update_end i] \<rparr>)
      | Break s' \<Rightarrow> Break s'
      | Raise e s' \<Rightarrow> Raise e s')"

fun train_loop ::
  "'w collaborators \<Rightarrow> config \<Rightarrow> 'w train_args \<Rightarrow> int list \<Rightarrow> 'w train_state \<Rightarrow> 'w outcome" where
  "train_loop C cfg A [] s = Returned s"
| "train_loop C cfg A (i # rest) s =
     (case update_iteration C cfg A i s of
        Continue s' \<Rightarrow> train_loop C cfg A rest s'
      | Break s' \<Rightarrow> Returned s'
      | Raise e s' \<Rightarrow> Raised e s')"

text \<open>
  The tensors as \<^verbatim>\<open>train\<close> allocates them (zeros; the action tensor is
  uninitialised in the source and every row is written before it is read), with the
  first observations stored in slot \<open>0\<close>.
\<close>

definition initial_state :: "'w collaborators \<Rightarrow> config \<Rightarrow> 'w \<Rightarrow> 'w train_state" where
  "initial_state C cfg w =
     (case env_reset C (net_mode C True w) of
        (first_observations, w1) \<Rightarrow>
          \<lparr> world = w1,
            observations =
              store_slot 0 first_observations
                (map (\<lambda>k. replicate (t_max cfg + 1) (replicate (n_worker cfg) (replicate k 0)))
                     (obs_sizes cfg)),
            rewards = replicate (t_max cfg) (replicate (n_worker cfg) 0),
            value_predictions = replicate (t_max cfg + 1) (replicate (n_worker cfg) 0),
            old_log_probs = replicate (t_max cfg + 1) (replicate (n_worker cfg) 0),
            returns = replicate (t_max cfg + 1) (replicate (n_worker cfg) 0),
            actions = replicate (t_max cfg) (replicate (n_worker cfg) 0),
            masks = replicate (t_max cfg) (replicate (n_worker cfg) 0),
            episode_rewards = replicate (n_worker cfg) 0,
            final_rewards = replicate (n_worker cfg) 0,
            best_score = None,
            steps = 0,
            last_losses = None,
            trace = [Env_reset] \<rparr>)"

definition train :: "'w collaborators \<Rightarrow> config \<Rightarrow> 'w train_args \<Rightarrow> 'w \<Rightarrow> 'w outcome" where
  "train C cfg A w = train_loop C cfg A [1..max_updates A] (initial_state C cfg w)"

section \<open>Specification-side definitions\<close>

text \<open>
  The backward recursion of generalized advantage estimation as the specification words
  it, for one worker: \<open>r\<close>, \<open>v\<close> and \<open>m\<close> give the reward, the value prediction and the
  mask of a step; the estimate is \<open>0\<close> at step \<open>T\<close> and
  \<open>delta + gamma * gae_lambda * m t * gae\<close> below it.
\<close>

function gae_spec :: "real \<Rightarrow> real \<Rightarrow> nat \<Rightarrow> (nat \<Rightarrow> real) \<Rightarrow> (nat \<Rightarrow> real) \<Rightarrow> (nat \<Rightarrow> real) \<Rightarrow> nat \<Rightarrow> real" where
  "gae_spec g l T r v m t =
     (if T \<le> t then 0
      else (r t + g * v (t + 1) * m t - v t) + g * l * m t * gae_spec g l T r v m (t + 1))"
  by pat_completeness auto
termination
  by (relation "measure (\<lambda>(g, l, T, r, v, m, t). T - t)") auto

text \<open>
  The clipped surrogate objective as the specification words it, for the probability
  ratios and the advantages of a minibatch: the negated mean of the element-wise minimum
  of \<open>ratio * A\<close> and \<open>clamp(ratio, 1 - epsilon, 1 + epsilon) * A\<close>.
\<close>

definition clipped_surrogate :: "real \<Rightarrow> real list \<Rightarrow> real list \<Rightarrow> real" where
  "clipped_surrogate eps ratios advs =
     - (sum_list (map2 (\<lambda>r a. min (r * a) (clamp (1 - eps) (1 + eps) r * a)) ratios advs)
          / real (length ratios))"

text \<open>The mean squared error between returns and value predictions.\<close>

definition mean_squared_error :: "real list \<Rightarrow> real list \<Rightarrow> real" where
  "mean_squared_error rets vals =
     sum_list (map2 (\<lambda>r v. (r - v)\<^sup>2) rets vals) / real (length rets)"

text \<open>
  The mean and the (unbiased) standard deviation of the entries of a tensor as real
  numbers, for normalizing an advantage: \<open>(a - mean) / std\<close>.
\<close>

definition mean_of :: "real list \<Rightarrow> real" where
  "mean_of xs = sum_list xs / real (length xs)"

definition std_of :: "real list \<Rightarrow> real" where
  "std_of xs = sqrt (sum_list (map (\<lambda>x. (x - mean_of xs)\<^sup>2) xs) / real (length xs - 1))"

text \<open>All entries of a tensor are the same number.\<close>

definition all_equal :: "real list \<Rightarrow> bool" where
  "all_equal xs \<longleftrightarrow> (\<forall>x \<in> set xs. \<forall>y \<in> set xs. x = y)"

text \<open>
  What one pass of the rollout loop reads from its collaborators, in the state \<open>s\<close> it
  starts from: the policy and the values of the network, the sampled actions, and the
  states, rewards and done flags of \<^verbatim>\<open>env.step\<close>.
\<close>

definition step_forward :: "'w collaborators \<Rightarrow> 'w train_state \<Rightarrow> nat \<Rightarrow> real list list \<times> real list" where
  "step_forward C s step = fst (model_forward C (map (\<lambda>ob. ob ! step) (observations s)) (world s))"

definition step_actions :: "'w collaborators \<Rightarrow> 'w train_state \<Rightarrow> nat \<Rightarrow> nat list" where
  "step_actions C s step =
     fst (sample_action C (fst (step_forward C s step))
            (snd (model_forward C (map (\<lambda>ob. ob ! step) (observations s)) (world s))))"

definition step_env ::
  "'w collaborators \<Rightarrow> 'w train_state \<Rightarrow> nat \<Rightarrow> obs list list \<times> real list \<times> bool list" where
  "step_env C s step =
     fst (env_step C (step_actions C s step)
            (snd (sample_action C (fst (step_forward C s step))
                    (snd (model_forward C (map (\<lambda>ob. ob ! step) (observations s)) (world s))))))"

text \<open>
  The states in which the iterations of the update loop start, in order: the loop of
  \<open>train_loop\<close>, keeping the state at the head of every pass.
\<close>

fun iteration_states ::
  "'w collaborators \<Rightarrow> config \<Rightarrow> 'w train_args \<Rightarrow> int list \<Rightarrow> 'w train_state \<Rightarrow> 'w train_state list" where
  "iteration_states C cfg A [] s = []"
| "iteration_states C cfg A (i # rest) s =
     s # (case update_iteration C cfg A i s of
            Continue s' \<Rightarrow> iteration_states C cfg A rest s'
          | Break s' \<Rightarrow> []
          | Raise e s' \<Rightarrow> [])"

text \<open>The shapes that \<^verbatim>\<open>train\<close> allocates its tensors with.\<close>

definition shaped :: "nat \<Rightarrow> nat \<Rightarrow> 'a list list \<Rightarrow> bool" where
  "shaped k n xs \<longleftrightarrow> length xs = k \<and> (\<forall>row \<in> set xs. length row = n)"

definition wf_state :: "config \<Rightarrow> 'w train_state \<Rightarrow> bool" where
  "wf_state cfg s \<longleftrightarrow>
     shaped (t_max cfg) (n_worker cfg) (rewards s) \<and>
     shaped (t_max cfg) (n_worker cfg) (masks s) \<and>
     shaped (t_max cfg) (n_worker cfg) (actions s) \<and>
     shaped (t_max cfg + 1) (n_worker cfg) (value_predictions s) \<and>
     shaped (t_max cfg + 1) (n_worker cfg) (old_log_probs s) \<and>
     shaped (t_max cfg + 1) (n_worker cfg) (returns s) \<and>
     length (observations s) = length (obs_sizes cfg) \<and>
     (\<forall>ob \<in> set (observations s). shaped (t_max cfg + 1) (n_worker cfg) ob)"

text \<open>
  What the training loop relies on from its collaborators: the environment serves
  \<open>n_worker\<close> workers and as many observation spaces as the agent allocated tensors for,
  the network answers with one policy row and one value per sample, one action is drawn
  per policy row, and \<^verbatim>\<open>torch.randperm(n)\<close> is a permutation of \<open>0, ..., n - 1\<close>.
\<close>

definition env_shaped :: "config \<Rightarrow> 'w collaborators \<Rightarrow> bool" where
  "env_shaped cfg C \<longleftrightarrow>
     (\<forall>w. shaped (length (obs_sizes cfg)) (n_worker cfg) (fst (env_reset C w))) \<and>
     (\<forall>a w. shaped (length (obs_sizes cfg)) (n_worker cfg) (fst (fst (env_step C a w))) \<and>
            length (fst (snd (fst (env_step C a w)))) = n_worker cfg \<and>
            length (snd (snd (fst (env_step C a w)))) = n_worker cfg)"

definition model_shaped :: "'w collaborators \<Rightarrow> bool" where
  "model_shaped C \<longleftrightarrow>
     (\<forall>xs w. xs \<noteq> [] \<longrightarrow>
        length (fst (fst (model_forward C xs w))) = length (hd xs) \<and>
        length (snd (fst (model_forward C xs w))) = length (hd xs) \<and>
        length (fst (model_forward_value C xs w)) = length (hd xs)) \<and>
     (\<forall>p w. length (fst (multinomial C p w)) = length p)"


text \<open>Reading a trace: the kind of a call, and the index lists of the minibatches.\<close>

datatype kind =
  K_begin | K_end | K_reset | K_step | K_sampler | K_minibatch | K_update | K_other

fun kind_of :: "event \<Rightarrow> kind" where
  "kind_of (Update_begin i) = K_begin"
| "kind_of (Update_end i) = K_end"
| "kind_of Env_reset = K_reset"
| "kind_of (Env_step a) = K_step"
| "kind_of Sampler_created = K_sampler"
| "kind_of (Minibatch b) = K_minibatch"
| "kind_of (Model_update l) = K_update"
| "kind_of (Evaluate i) = K_other"
| "kind_of (Scheduler_step x) = K_other"
| "kind_of (Save_network n) = K_other"


definition count_kind :: "kind \<Rightarrow> event list \<Rightarrow> nat" where
  "count_kind k es = length (filter (\<lambda>e. kind_of e = k) es)"



text \<open>The tensors of the rollout are the same in two states.\<close>

definition same_tensors :: "'w train_state \<Rightarrow> 'w train_state \<Rightarrow> bool" where
  "same_tensors s s' \<longleftrightarrow>
     observations s' = observations s \<and> rewards s' = rewards s \<and>
     value_predictions s' = value_predictions s \<and> old_log_probs s' = old_log_probs s \<and>
     returns s' = returns s \<and> actions s' = actions s \<and> masks s' = masks s"

text \<open>A run from \<open>s\<close> to \<open>s'\<close> only appended events of the kinds \<open>Ks\<close> to the trace.\<close>

definition appends :: "kind set \<Rightarrow> 'w train_state \<Rightarrow> 'w train_state \<Rightarrow> bool" where
  "appends Ks s s' \<longleftrightarrow> (\<exists>ev. trace s' = trace s @ ev \<and> kind_of ` set ev \<subseteq> Ks)"

text \<open>
  The end of an iteration (logging, evaluation, dump) that started in \<open>s\<close> and ended
  with the flow \<open>f\<close>: it left the tensors alone, appended only calls of the evaluator,
  the scheduler and \<^verbatim>\<open>save_network\<close>, and when it ended in a \<^verbatim>\<open>break\<close>, then
  an evaluator, a score name and a scheduler were given, the last call was a scheduler
  step, and the learning rate is \<open>0\<close>.
\<close>

definition tail_flow :: "'w collaborators \<Rightarrow> 'w train_args \<Rightarrow> 'w train_state \<Rightarrow> 'w flow \<Rightarrow> bool" where
  "tail_flow C A s f \<longleftrightarrow>
     appends {K_other} s (flow_state f) \<and> same_tensors s (flow_state f) \<and>
     (case f of
        Break s' \<Rightarrow> evaluator A \<noteq> None \<and> score_name A \<noteq> None \<and> lr_scheduler A \<noteq> None \<and>
                    get_lr C (world s') = 0 \<and> (\<exists>score. last (trace s') = Scheduler_step score)
      | Continue s' \<Rightarrow> True
      | Raise e s' \<Rightarrow> True)"

text \<open>The events a run appended to the trace it started with.\<close>

definition new_events :: "'w train_state \<Rightarrow> 'w train_state \<Rightarrow> event list" where
  "new_events s s' = drop (length (trace s)) (trace s')"

section \<open>A small deterministic set of collaborators\<close>

text \<open>
  An environment for \<open>n\<close> workers with one observation space of one entry, in which a
  worker's episode ends when it plays action \<open>0\<close>; a network with two actions and
  constant outputs; a sampler that alternates the two actions over the workers; the
  reversal as permutation; and an optimizer whose learning rate is \<open>0\<close> once the world
  counter is positive. The world is that counter: the scheduler below increments it.
\<close>

definition demo :: "nat \<Rightarrow> nat collaborators" where
  "demo n =
     \<lparr> env_reset = (\<lambda>w. ([replicate n [1]], w)),
       env_step = (\<lambda>acts w. (([map (\<lambda>i. [real (acts ! i) + 2]) [0..<n]],
                               map (\<lambda>i. real (acts ! i) + 1) [0..<n],
                               map (\<lambda>i. acts ! i = 0) [0..<n]), w)),
       model_forward = (\<lambda>xs w. ((map (\<lambda>x. [0, 0]) (hd xs), map (\<lambda>x. 0) (hd xs)), w)),
       model_forward_value = (\<lambda>xs w. (map (\<lambda>x. 1) (hd xs), w)),
       model_update = (\<lambda>ls w. w),
       multinomial = (\<lambda>p w. (map (\<lambda>i. i mod 2) [0..<length p], w)),
       randperm = (\<lambda>k w. (rev [0..<k], w)),
       net_mode = (\<lambda>b w. w),
       get_lr = (\<lambda>w. if w \<ge> 1 then 0 else 1),
       save_network = (\<lambda>d name w. w) \<rparr>"

definition demo_config :: "nat \<Rightarrow> nat \<Rightarrow> nat \<Rightarrow> config" where
  "demo_config t n b =
     \<lparr> t_max = t, n_worker = n, gamma = 1 / 2, gae_lambda = 1 / 2, ppo_epoch = 2,
       epsilon = 1 / 5, batch_size = b, obs_sizes = [1] \<rparr>"

definition demo_args :: "int \<Rightarrow> bool \<Rightarrow> nat train_args" where
  "demo_args n with_scheduler =
     \<lparr> max_updates = n, log_interval = 100,
       evaluator = Some (\<lambda>k w. ((\<lambda>name. if name = ''score'' then Some 1 else None), w)),
       eval_interval = 2,
       lr_scheduler = (if with_scheduler then Some (\<lambda>score w. w + 1) else None),
       score_name = Some ''score'', high_is_better = False,
       dump_interval = 100000, dump_dir = None \<rparr>"

section \<open>Vectors, shapes and the tensors of a run\<close>

lemma length_vadd: "length (vadd a b) = min (length a) (length b)" by (simp add: vadd_def)
lemma length_vsub: "length (vsub a b) = min (length a) (length b)" by (simp add: vsub_def)
lemma length_vmul: "length (vmul a b) = min (length a) (length b)" by (simp add: vmul_def)
lemma length_smul: "length (smul c a) = length a" by (simp add: smul_def)
lemma nth_vadd: "w < length a \<Longrightarrow> w < length b \<Longrightarrow> vadd a b ! w = a ! w + b ! w" by (simp add: vadd_def)
lemma nth_vsub: "w < length a \<Longrightarrow> w < length b \<Longrightarrow> vsub a b ! w = a ! w - b ! w" by (simp add: vsub_def)
lemma nth_vmul: "w < length a \<Longrightarrow> w < length b \<Longrightarrow> vmul a b ! w = a ! w * b ! w" by (simp add: vmul_def)
lemma nth_smul: "w < length a \<Longrightarrow> smul c a ! w = c * a ! w" by (simp add: smul_def)

lemmas vec_simps = length_vadd length_vsub length_vmul length_smul nth_vadd nth_vsub nth_vmul nth_smul

declare gae_spec.simps [simp del]

lemma gae_spec_unfold:
  "k < T \<Longrightarrow> gae_spec g l T r v m k =
     (r k + g * v (Suc k) * m k - v k) + g * l * m k * gae_spec g l T r v m (Suc k)"
  by (subst gae_spec.simps) simp

lemma gae_spec_end: "T \<le> k \<Longrightarrow> gae_spec g l T r v m k = 0"
  by (subst gae_spec.simps) simp

text \<open>The loop of the returns, run over the steps k, ..., T - 1 in reverse.\<close>

lemma gae_loop:
  assumes rews: "shaped T n rews" and ms: "shaped T n ms" and vps: "shaped (T + 1) n vps"
    and rets: "length rets = T + 1"
  shows "k \<le> T \<Longrightarrow>
    (case foldl (gae_step g l rews vps ms) (None, rets) (rev [k..<T]) of (gae, rets') \<Rightarrow>
       length rets' = T + 1 \<and>
       (k < T \<longrightarrow> gae = Some (map (\<lambda>w. gae_spec g l T (\<lambda>t. rews ! t ! w) (\<lambda>t. vps ! t ! w) (\<lambda>t. ms ! t ! w) k) [0..<n])) \<and>
       (k = T \<longrightarrow> gae = None) \<and>
       (\<forall>t. t < k \<or> T \<le> t \<longrightarrow> rets' ! t = rets ! t) \<and>
       (\<forall>t. k \<le> t \<and> t < T \<longrightarrow> rets' ! t = map (\<lambda>w. gae_spec g l T (\<lambda>t. rews ! t ! w) (\<lambda>t. vps ! t ! w) (\<lambda>t. ms ! t ! w) t + vps ! t ! w) [0..<n]))"
proof (induction "T - k" arbitrary: k)
  case 0
  then show ?case using rets by auto
next
  case (Suc d)
  then have kT: "k < T" and d: "d = T - Suc k" and le: "Suc k \<le> T" by auto
  have split: "rev [k..<T] = rev [Suc k..<T] @ [k]"
    using kT by (simp add: upt_conv_Cons)
  obtain gae rets1 where st: "foldl (gae_step g l rews vps ms) (None, rets) (rev [Suc k..<T]) = (gae, rets1)"
    by (cases "foldl (gae_step g l rews vps ms) (None, rets) (rev [Suc k..<T])")
  note ih = Suc.hyps(1)[OF d le, unfolded st, simplified]
  have lr: "length (rews ! k) = n" "length (ms ! k) = n" "length (vps ! k) = n" "length (vps ! Suc k) = n"
    using rews ms vps kT by (auto simp: shaped_def)
  let ?G = "\<lambda>t w. gae_spec g l T (\<lambda>t. rews ! t ! w) (\<lambda>t. vps ! t ! w) (\<lambda>t. ms ! t ! w) t"
  define carried where "carried = (case gae of None \<Rightarrow> map (\<lambda>x. x * 0) (smul (g * l) (ms ! k))
                       | Some gv \<Rightarrow> vmul (smul (g * l) (ms ! k)) gv)"
  have carried: "carried = map (\<lambda>w. g * l * ms ! k ! w * ?G (Suc k) w) [0..<n]"
  proof (cases "Suc k = T")
    case True
    then have "gae = None" using ih by simp
    then show ?thesis using True lr
      by (auto simp: carried_def gae_spec_end intro!: nth_equalityI simp: vec_simps)
  next
    case False
    then have "gae = Some (map (?G (Suc k)) [0..<n])" using ih le by simp
    then show ?thesis using lr
      by (auto simp: carried_def intro!: nth_equalityI simp: vec_simps)
  qed
  define gae' where "gae' = vadd (vsub (vadd (rews ! k) (vmul (smul g (vps ! (k + 1))) (ms ! k))) (vps ! k)) carried"
  have gae': "gae' = map (?G k) [0..<n]"
    unfolding gae'_def carried using lr kT
    by (auto intro!: nth_equalityI simp: vec_simps gae_spec_unfold)
  have step: "gae_step g l rews vps ms (gae, rets1) k = (Some gae', rets1[k := vadd gae' (vps ! k)])"
    by (simp add: gae_step_def Let_def gae'_def carried_def)
  have row: "vadd gae' (vps ! k) = map (\<lambda>w. ?G k w + vps ! k ! w) [0..<n]"
    unfolding gae' using lr by (auto intro!: nth_equalityI simp: vec_simps)
  show ?case
    unfolding split foldl_append st
    using ih kT by (auto simp: step gae' row[unfolded gae'] nth_list_update)
qed

lemma store_slot_fold_length:
  "length (fold (\<lambda>(j, ob) acc. acc[j := (acc ! j)[slot := ob]]) (enumerate k xs) acc0) = length acc0"
  by (induction xs arbitrary: k acc0) auto

lemma store_slot_fold_nth:
  "j < length acc0 \<Longrightarrow>
   fold (\<lambda>(j, ob) acc. acc[j := (acc ! j)[slot := ob]]) (enumerate k xs) acc0 ! j =
     (if k \<le> j \<and> j < k + length xs then (acc0 ! j)[slot := xs ! (j - k)] else acc0 ! j)"
proof (induction xs arbitrary: k acc0 j)
  case Nil
  then show ?case by auto
next
  case (Cons x xs)
  show ?case
  proof (cases "j = k")
    case True
    then show ?thesis using Cons.prems by (simp add: Cons.IH)
  next
    case False
    then show ?thesis using Cons.prems by (auto simp: Cons.IH nth_list_update Suc_diff_le)
  qed
qed

lemma length_store_slot: "length (store_slot slot xs acc0) = length acc0"
  by (simp add: store_slot_def store_slot_fold_length)

lemma nth_store_slot:
  "j < length acc0 \<Longrightarrow>
   store_slot slot xs acc0 ! j = (if j < length xs then (acc0 ! j)[slot := xs ! j] else acc0 ! j)"
  by (simp add: store_slot_def store_slot_fold_nth)

lemma shaped_update: "shaped k n xs \<Longrightarrow> length row = n \<Longrightarrow> shaped k n (xs[i := row])"
  by (auto simp: shaped_def dest!: set_update_subset_insert[THEN subsetD])

lemma shaped_nth: "shaped k n xs \<Longrightarrow> i < k \<Longrightarrow> length (xs ! i) = n"
  by (simp add: shaped_def)

lemma shaped_length: "shaped k n xs \<Longrightarrow> length xs = k"
  by (simp add: shaped_def)

lemma shaped_replicate: "length row = n \<Longrightarrow> shaped k n (replicate k row)"
  by (simp add: shaped_def)

lemma length_mask_state: "length (mask_state ms st) = min (length st) (length ms)"
  by (simp add: mask_state_def)

lemma length_done_masks: "length (done_masks ds) = length ds"
  by (simp add: done_masks_def)

lemma length_get_log_probs: "length (get_log_probs p a) = min (length p) (length a)"
  by (simp add: get_log_probs_def)

lemma store_slot_shaped:
  assumes "\<forall>ob \<in> set acc0. shaped k n ob" and "\<forall>x \<in> set xs. length x = n"
  shows "\<forall>ob \<in> set (store_slot slot xs acc0). shaped k n ob"
proof
  fix ob assume "ob \<in> set (store_slot slot xs acc0)"
  then obtain j where j: "j < length acc0" and ob: "ob = store_slot slot xs acc0 ! j"
    by (auto simp: in_set_conv_nth length_store_slot)
  have a: "shaped k n (acc0 ! j)" using assms(1) j by simp
  show "shaped k n ob"
  proof (cases "j < length xs")
    case True
    then have "length (xs ! j) = n" using assms(2) by simp
    then show ?thesis using a True j ob by (simp add: nth_store_slot shaped_update)
  next
    case False
    then show ?thesis using a j ob by (simp add: nth_store_slot)
  qed
qed

lemma rollout_step_wf:
  assumes wf: "wf_state cfg s" and env: "env_shaped cfg C" and model: "model_shaped C"
    and obs: "obs_sizes cfg \<noteq> []" and step: "step < t_max cfg"
  shows "wf_state cfg (rollout_step C s step)"
proof -
  obtain policy val w1 where f: "model_forward C (map (\<lambda>ob. ob ! step) (observations s)) (world s) = ((policy, val), w1)"
    by (metis prod.exhaust)
  obtain acts w2 where a: "sample_action C policy w1 = (acts, w2)" by (metis prod.exhaust)
  obtain state reward dones w3 where e: "env_step C acts w2 = ((state, reward, dones), w3)"
    by (metis prod.exhaust)
  have ne: "observations s \<noteq> []" using wf obs by (auto simp: wf_state_def)
  then have "hd (map (\<lambda>ob. ob ! step) (observations s)) = hd (observations s) ! step"
    by (simp add: hd_map)
  moreover have "length (hd (observations s) ! step) = n_worker cfg"
    using wf ne step by (auto simp: wf_state_def intro!: shaped_nth[where k="t_max cfg + 1"])
  ultimately have lp: "length policy = n_worker cfg" "length val = n_worker cfg"
    using model ne f unfolding model_shaped_def
    by (metis (no_types, lifting) fst_conv snd_conv map_is_Nil_conv)+
  have la: "length acts = n_worker cfg"
    using model a lp unfolding model_shaped_def sample_action_def
    by (metis fst_conv length_map)
  have le: "shaped (length (obs_sizes cfg)) (n_worker cfg) state" "length reward = n_worker cfg"
    "length dones = n_worker cfg"
    using env e unfolding env_shaped_def by (metis fst_conv snd_conv)+
  have st: "\<forall>x \<in> set (map (mask_state (done_masks dones)) state). length x = n_worker cfg"
    using le by (auto simp: shaped_def length_mask_state length_done_masks)
  have ob: "\<forall>ob \<in> set (store_slot (step + 1) (map (mask_state (done_masks dones)) state)
                          (observations s)). shaped (t_max cfg + 1) (n_worker cfg) ob"
    using wf st by (intro store_slot_shaped) (simp_all add: wf_state_def)
  show ?thesis
    using wf lp la le ob
    by (simp add: rollout_step_def f a e Let_def wf_state_def shaped_update length_store_slot
        length_get_log_probs length_done_masks)
qed

lemma rollout_wf_upto:
  assumes env: "env_shaped cfg C" and model: "model_shaped C" and obs: "obs_sizes cfg \<noteq> []"
  shows "k \<le> t_max cfg \<Longrightarrow> wf_state cfg s \<Longrightarrow> wf_state cfg (foldl (rollout_step C) s [0..<k])"
  by (induction k) (auto intro: rollout_step_wf[OF _ env model obs])

lemma rollout_wf:
  "env_shaped cfg C \<Longrightarrow> model_shaped C \<Longrightarrow> obs_sizes cfg \<noteq> [] \<Longrightarrow> wf_state cfg s
   \<Longrightarrow> wf_state cfg (rollout C cfg s)"
  by (simp add: rollout_def rollout_wf_upto)

lemma initial_state_wf:
  assumes env: "env_shaped cfg C"
  shows "wf_state cfg (initial_state C cfg w)"
proof -
  obtain fo w1 where r: "env_reset C (net_mode C True w) = (fo, w1)" by (metis prod.exhaust)
  have fo: "\<forall>x \<in> set fo. length x = n_worker cfg"
    using env r unfolding env_shaped_def shaped_def by (metis fst_conv)
  have z: "\<forall>ob \<in> set (map (\<lambda>k. replicate (t_max cfg + 1) (replicate (n_worker cfg) (replicate k (0::real))))
                     (obs_sizes cfg)). shaped (t_max cfg + 1) (n_worker cfg) ob"
    by (auto simp: shaped_def)
  show ?thesis
    using store_slot_shaped[OF z fo]
    by (simp add: initial_state_def r wf_state_def shaped_replicate length_store_slot del: replicate_Suc)
qed

section \<open>The returns of an update (lines 136 to 145)\<close>

lemma demo_env_shaped: "env_shaped (demo_config t n b) (demo n)"
  by (simp add: env_shaped_def demo_def demo_config_def shaped_def)

lemma demo_model_shaped: "model_shaped (demo n)"
  by (simp add: model_shaped_def demo_def)


lemma demo_config_simps:
  "t_max (demo_config t n b) = t" "n_worker (demo_config t n b) = n"
  "batch_size (demo_config t n b) = b" "obs_sizes (demo_config t n b) = [1]"
  "ppo_epoch (demo_config t n b) = 2" "gamma (demo_config t n b) = 1 / 2"
  "gae_lambda (demo_config t n b) = 1 / 2" "epsilon (demo_config t n b) = 1 / 5"
  by (simp_all add: demo_config_def)

lemma demo_rollout_wf:
  "wf_state (demo_config t n b) (rollout (demo n) (demo_config t n b) (initial_state (demo n) (demo_config t n b) w))"
  by (intro rollout_wf initial_state_wf demo_env_shaped demo_model_shaped) (simp add: demo_config_simps)

lemma calculate_returns_fields:
  "rewards (calculate_returns C cfg s) = rewards s"
  "masks (calculate_returns C cfg s) = masks s"
  "observations (calculate_returns C cfg s) = observations s"
  "actions (calculate_returns C cfg s) = actions s"
  "old_log_probs (calculate_returns C cfg s) = old_log_probs s"
  "trace (calculate_returns C cfg s) = trace s"
  "length (value_predictions (calculate_returns C cfg s)) = length (value_predictions s)"
  "value_predictions (calculate_returns C cfg s) =
     (value_predictions s)[length (value_predictions s) - 1 :=
        fst (model_forward_value C (map last (observations s)) (world s))]"
  by (simp_all add: calculate_returns_def Let_def split: prod.splits)

lemma last_slot: "length xs = Suc k \<Longrightarrow> last xs = xs ! k"
  by (cases xs rule: rev_cases) (auto simp: nth_append)

lemma upt_2: "[0..<2] = [0, 1]" by (simp add: upt_rec)

lemma demo_rollout_value:
  "returns (calculate_returns (demo 2) (demo_config 2 2 1)
      (rollout (demo 2) (demo_config 2 2 1) (initial_state (demo 2) (demo_config 2 2 1) 0))) ! 0 ! 1 = 21 / 8"
  by (simp add: calculate_returns_def rollout_def rollout_step_def initial_state_def demo_def demo_config_def
      store_slot_def enumerate_eq_zip upt_2 sample_action_def done_masks_def mask_state_def gae_step_def
      vec_simps vadd_def vsub_def vmul_def smul_def Let_def numeral_2_eq_2 upt_rec)

text \<open>
  Claim C1. After the rollout, \<open>value_predictions[t_max]\<close> is the network's value of the
  observations in the final slot \<open>t_max\<close>, the earlier value predictions, the rewards and
  the masks are left as the rollout stored them, and for every step \<open>t < t_max\<close> and
  every worker \<open>w\<close> the entry \<open>returns[t][w]\<close> is the generalized advantage estimate of
  the backward recursion (\<open>gae_spec\<close>: \<open>0\<close> at \<open>t_max\<close>, and
  \<open>delta + gamma * gae_lambda * masks[t] * gae\<close> with
  \<open>delta = rewards[t] + gamma * value_predictions[t + 1] * masks[t] - value_predictions[t]\<close>
  below) plus \<open>value_predictions[t][w]\<close>; so the advantage before normalization,
  \<open>returns[t] - value_predictions[t]\<close>, is that estimate.
\<close>

theorem gae_returns:
  assumes wf: "wf_state cfg s" and model: "model_shaped C" and obs: "obs_sizes cfg \<noteq> []"
    and t: "t < t_max cfg" and w: "w < n_worker cfg"
  shows "let s' = calculate_returns C cfg s;
             G = gae_spec (gamma cfg) (gae_lambda cfg) (t_max cfg)
                   (\<lambda>k. rewards s' ! k ! w) (\<lambda>k. value_predictions s' ! k ! w) (\<lambda>k. masks s' ! k ! w)
         in value_predictions s' ! t_max cfg =
              fst (model_forward_value C (map (\<lambda>ob. ob ! t_max cfg) (observations s)) (world s)) \<and>
            value_predictions s' ! t = value_predictions s ! t \<and>
            rewards s' = rewards s \<and> masks s' = masks s \<and>
            returns s' ! t ! w = G t + value_predictions s' ! t ! w \<and>
            raw_advantages s' ! t ! w = G t"
proof -
  define v where "v = fst (model_forward_value C (map last (observations s)) (world s))"
  define vps where "vps = (value_predictions s)[length (value_predictions s) - 1 := v]"
  define s' where "s' = calculate_returns C cfg s"
  let ?T = "t_max cfg" and ?n = "n_worker cfg"
  have ne: "observations s \<noteq> []" using wf obs by (auto simp: wf_state_def)
  have lasts: "map last (observations s) = map (\<lambda>ob. ob ! ?T) (observations s)"
    using wf by (auto simp: wf_state_def shaped_def last_slot)
  have "shaped (?T + 1) ?n (hd (observations s))"
    using wf ne by (simp add: wf_state_def)
  then have "length (last (hd (observations s))) = ?n"
    by (simp add: shaped_def last_slot[where k="?T"])
  then have lv: "length v = ?n"
    using model ne unfolding model_shaped_def v_def
    by (metis (no_types, lifting) hd_map map_is_Nil_conv)
  have sh: "shaped ?T ?n (rewards s)" "shaped ?T ?n (masks s)" "shaped (?T + 1) ?n (value_predictions s)"
    "length (returns s) = ?T + 1"
    using wf by (auto simp: wf_state_def shaped_def)
  have lvp: "vps = (value_predictions s)[?T := v]" using sh by (simp add: vps_def shaped_def)
  have vsh: "shaped (?T + 1) ?n vps"
    unfolding vps_def using sh lv by (simp add: shaped_update)
  have vp': "value_predictions s' = vps"
    by (simp add: s'_def vps_def v_def calculate_returns_fields)
  have ret': "returns s' = snd (foldl (gae_step (gamma cfg) (gae_lambda cfg) (rewards s) vps (masks s))
                                      (None, returns s) (rev [0..<?T]))"
    by (simp add: s'_def vps_def v_def calculate_returns_def Let_def split: prod.splits)
  let ?G = "\<lambda>t. gae_spec (gamma cfg) (gae_lambda cfg) ?T
                   (\<lambda>k. rewards s ! k ! w) (\<lambda>k. vps ! k ! w) (\<lambda>k. masks s ! k ! w) t"
  from gae_loop[OF sh(1) sh(2) vsh sh(4), of 0 "gamma cfg" "gae_lambda cfg"]
  have loop: "length (returns s') = ?T + 1"
    "returns s' ! t = map (\<lambda>w. gae_spec (gamma cfg) (gae_lambda cfg) ?T
                   (\<lambda>k. rewards s ! k ! w) (\<lambda>k. vps ! k ! w) (\<lambda>k. masks s ! k ! w) t + vps ! t ! w) [0..<?n]"
    using t by (auto simp: ret' split: prod.splits)
  have r: "returns s' ! t ! w = ?G t + vps ! t ! w"
    using w by (simp add: loop(2))
  have lrow: "length (vps ! t) = ?n" using vsh t by (simp add: shaped_def)
  have adv: "raw_advantages s' ! t ! w = ?G t"
    using t w loop lrow vsh
    by (simp add: raw_advantages_def vp' nth_butlast shaped_def vec_simps)
  have a: "value_predictions s' ! ?T = fst (model_forward_value C (map (\<lambda>ob. ob ! ?T) (observations s)) (world s))"
    using sh by (simp add: vp' lvp v_def lasts shaped_def)
  have b: "value_predictions s' ! t = value_predictions s ! t"
    using t by (simp add: vp' lvp)
  show ?thesis
    using a b r adv
    by (simp add: Let_def s'_def[symmetric] vp' calculate_returns_fields[of C cfg s, folded s'_def])
qed

theorem gae_returns_witness:
  "wf_state (demo_config 2 2 1)
     (rollout (demo 2) (demo_config 2 2 1) (initial_state (demo 2) (demo_config 2 2 1) 0)) \<and>
   model_shaped (demo 2) \<and> obs_sizes (demo_config 2 2 1) \<noteq> [] \<and>
   (0::nat) < t_max (demo_config 2 2 1) \<and> (1::nat) < n_worker (demo_config 2 2 1) \<and>
   (let s' = calculate_returns (demo 2) (demo_config 2 2 1)
               (rollout (demo 2) (demo_config 2 2 1) (initial_state (demo 2) (demo_config 2 2 1) 0));
        G = gae_spec (1 / 2) (1 / 2) 2
              (\<lambda>k. rewards s' ! k ! 1) (\<lambda>k. value_predictions s' ! k ! 1) (\<lambda>k. masks s' ! k ! 1)
    in returns s' ! 0 ! 1 = G 0 + value_predictions s' ! 0 ! 1 \<and>
       raw_advantages s' ! 0 ! 1 = G 0 \<and>
       returns s' ! 0 ! 1 = 21 / 8)"
proof -
  have h: "obs_sizes (demo_config 2 2 1) \<noteq> []" "(0::nat) < t_max (demo_config 2 2 1)"
    "(1::nat) < n_worker (demo_config 2 2 1)"
    by (simp_all add: demo_config_simps)
  note wf = demo_rollout_wf[of 2 2 1 "0::nat"]
  note m = demo_model_shaped[of 2]
  from gae_returns[OF wf m h]
  show ?thesis
    using h wf m demo_rollout_value
    by (simp add: Let_def demo_config_simps)
qed

section \<open>One pass of the rollout loop (lines 88 to 133)\<close>

text \<open>One pass of the rollout loop, in terms of what it read from its collaborators.\<close>

lemma rollout_step_fields:
  "actions (rollout_step C s step) = (actions s)[step := step_actions C s step]"
  "value_predictions (rollout_step C s step) = (value_predictions s)[step := snd (step_forward C s step)]"
  "old_log_probs (rollout_step C s step) =
     (old_log_probs s)[step := get_log_probs (fst (step_forward C s step)) (step_actions C s step)]"
  "rewards (rollout_step C s step) = (rewards s)[step := fst (snd (step_env C s step))]"
  "masks (rollout_step C s step) = (masks s)[step := done_masks (snd (snd (step_env C s step)))]"
  "observations (rollout_step C s step) =
     store_slot (step + 1)
       (map (mask_state (done_masks (snd (snd (step_env C s step))))) (fst (step_env C s step)))
       (observations s)"
  "trace (rollout_step C s step) = trace s @ [Env_step (step_actions C s step)]"
  "returns (rollout_step C s step) = returns s"
  "steps (rollout_step C s step) = steps s + 1"
  by (simp_all add: rollout_step_def step_forward_def step_actions_def step_env_def Let_def
      split: prod.splits)

lemma nth_mask_state:
  "w < length st \<Longrightarrow> w < length ms \<Longrightarrow> mask_state ms st ! w = map (\<lambda>x. x * ms ! w) (st ! w)"
  by (simp add: mask_state_def)

lemma nth_done_masks: "w < length ds \<Longrightarrow> done_masks ds ! w = (if ds ! w then 0 else 1)"
  by (simp add: done_masks_def)

lemma step_env_shaped:
  assumes "env_shaped cfg C"
  shows "shaped (length (obs_sizes cfg)) (n_worker cfg) (fst (step_env C s step))"
    and "length (fst (snd (step_env C s step))) = n_worker cfg"
    and "length (snd (snd (step_env C s step))) = n_worker cfg"
  using assms by (simp_all add: env_shaped_def step_env_def)

lemma stored_observation:
  assumes wf: "wf_state cfg s" and env: "env_shaped cfg C"
    and step: "step < t_max cfg" and j: "j < length (obs_sizes cfg)"
  shows "observations (rollout_step C s step) ! j ! (step + 1) =
           mask_state (done_masks (snd (snd (step_env C s step)))) (fst (step_env C s step) ! j)"
proof -
  have lo: "length (observations s) = length (obs_sizes cfg)"
    and lj: "length (observations s ! j) = t_max cfg + 1"
    using wf j by (auto simp: wf_state_def shaped_def)
  have ls: "length (fst (step_env C s step)) = length (obs_sizes cfg)"
    using step_env_shaped(1)[OF env] by (simp add: shaped_def)
  show ?thesis
    using lo lj ls j step by (simp add: rollout_step_fields nth_store_slot)
qed

text \<open>
  Claim C10. In a pass of the rollout loop, for every observation tensor \<open>j\<close> and every
  worker \<open>w\<close>: when the done flag of \<open>w\<close> is set, the observation stored for \<open>w\<close> in slot
  \<open>step + 1\<close> is all zeros (the state the environment returned, multiplied by the mask
  \<open>0\<close>); when it is not set, the state the environment returned is stored unchanged. That
  slot is what the network reads for \<open>w\<close> next. (Over the reals: a state entry that is
  infinite or NaN is outside the model.)
\<close>

theorem done_observation_zeroed:
  assumes wf: "wf_state cfg s" and env: "env_shaped cfg C"
    and step: "step < t_max cfg" and j: "j < length (obs_sizes cfg)" and w: "w < n_worker cfg"
  shows "let (state, reward, dones) = step_env C s step;
             s' = rollout_step C s step;
             stored = observations s' ! j ! (step + 1) ! w
         in (dones ! w \<longrightarrow> stored = replicate (length (state ! j ! w)) 0) \<and>
            (\<not> dones ! w \<longrightarrow> stored = state ! j ! w) \<and>
            map (\<lambda>ob. ob ! (step + 1)) (observations s') ! j ! w = stored"
proof -
  obtain state reward dones where e: "step_env C s step = (state, reward, dones)"
    by (metis prod.exhaust)
  have sh: "shaped (length (obs_sizes cfg)) (n_worker cfg) state" "length dones = n_worker cfg"
    using step_env_shaped[OF env, of s step] by (simp_all add: e)
  have lj: "length (state ! j) = n_worker cfg" using sh j by (simp add: shaped_def)
  have lo: "length (observations (rollout_step C s step)) = length (obs_sizes cfg)"
    using wf by (simp add: rollout_step_fields length_store_slot wf_state_def)
  have st: "observations (rollout_step C s step) ! j ! (step + 1) ! w =
              map (\<lambda>x. x * (if dones ! w then 0 else 1)) (state ! j ! w)"
    using stored_observation[OF wf env step j] w sh lj
    by (simp add: e nth_mask_state length_done_masks nth_done_masks)
  show ?thesis
    using st lo j by (simp add: e Let_def map_replicate_const)
qed

lemma demo_initial_wf: "wf_state (demo_config t n b) (initial_state (demo n) (demo_config t n b) w)"
  by (intro initial_state_wf demo_env_shaped)

lemma demo_first_step:
  "step_env (demo 2) (initial_state (demo 2) (demo_config 2 2 1) 0) 0 =
     ([[[2], [3]]], [1, 2], [True, False])"
  "observations (rollout_step (demo 2) (initial_state (demo 2) (demo_config 2 2 1) 0) 0) =
     [[[[1], [1]], [[0], [3]], [[0], [0]]]]"
  by (simp_all add: step_env_def step_actions_def step_forward_def rollout_step_def initial_state_def
      demo_def demo_config_def store_slot_def enumerate_eq_zip sample_action_def done_masks_def
      mask_state_def Let_def numeral_2_eq_2 upt_rec)

theorem done_observation_zeroed_witness:
  "wf_state (demo_config 2 2 1) (initial_state (demo 2) (demo_config 2 2 1) 0) \<and>
   env_shaped (demo_config 2 2 1) (demo 2) \<and>
   (0::nat) < t_max (demo_config 2 2 1) \<and> (0::nat) < length (obs_sizes (demo_config 2 2 1)) \<and>
   (1::nat) < n_worker (demo_config 2 2 1) \<and>
   snd (snd (step_env (demo 2) (initial_state (demo 2) (demo_config 2 2 1) 0) 0)) = [True, False] \<and>
   fst (step_env (demo 2) (initial_state (demo 2) (demo_config 2 2 1) 0) 0) ! 0 = [[2], [3]] \<and>
   observations (rollout_step (demo 2) (initial_state (demo 2) (demo_config 2 2 1) 0) 0) ! 0 ! 1 ! 0
     = replicate (length [2::real]) 0 \<and>
   observations (rollout_step (demo 2) (initial_state (demo 2) (demo_config 2 2 1) 0) 0) ! 0 ! 1 ! 1
     = [3]"
proof -
  note wf = demo_initial_wf[of 2 2 1 "0::nat"]
  note env = demo_env_shaped[of 2 2 1]
  have h: "(0::nat) < t_max (demo_config 2 2 1)" "(0::nat) < length (obs_sizes (demo_config 2 2 1))"
    "(0::nat) < n_worker (demo_config 2 2 1)" "(1::nat) < n_worker (demo_config 2 2 1)"
    by (simp_all add: demo_config_simps)
  from done_observation_zeroed[OF wf env h(1) h(2) h(3)] done_observation_zeroed[OF wf env h(1) h(2) h(4)]
  show ?thesis
    using wf env h demo_first_step by simp
qed

section \<open>The minibatches of an epoch\<close>







lemma same_tensors_refl: "same_tensors s s"
  by (simp add: same_tensors_def)

lemma same_tensors_trans: "same_tensors s s' \<Longrightarrow> same_tensors s' s'' \<Longrightarrow> same_tensors s s''"
  by (simp add: same_tensors_def)

lemma same_tensors_wf: "same_tensors s s' \<Longrightarrow> wf_state cfg s' = wf_state cfg s"
  by (simp add: same_tensors_def wf_state_def)

lemma minibatch_same_tensors: "same_tensors s (minibatch C cfg adv s indices)"
  by (simp add: same_tensors_def minibatch_def Let_def split: prod.splits)

lemma minibatch_trace:
  "\<exists>l. trace (minibatch C cfg adv s indices) = trace s @ [Minibatch indices, Model_update l]"
  by (simp add: minibatch_def Let_def split: prod.splits)

lemma minibatch_last_losses: "last_losses (minibatch C cfg adv s indices) \<noteq> None"
  by (simp add: minibatch_def Let_def split: prod.splits)



lemma minibatches_same_tensors: "same_tensors s (foldl (minibatch C cfg adv) s batches)"
proof (induction batches arbitrary: s)
  case Nil
  show ?case by (simp add: same_tensors_refl)
next
  case (Cons b bs)
  show ?case
    using same_tensors_trans[OF minibatch_same_tensors Cons] by simp
qed






lemma epoch_same_tensors: "same_tensors s (epoch C cfg adv s)"
proof -
  obtain sampled w1 where r: "subset_random_sampler C [0..<n_worker cfg * t_max cfg] (world s) = (sampled, w1)"
    by (metis prod.exhaust)
  have "same_tensors s (s\<lparr> world := w1, trace := trace s @ [Sampler_created] \<rparr>)"
    by (simp add: same_tensors_def)
  then show ?thesis
    unfolding epoch_def r prod.case by (rule same_tensors_trans[OF _ minibatches_same_tensors])
qed


lemma epochs_same_tensors: "same_tensors s (foldl (\<lambda>s' _. epoch C cfg adv s') s es)"
proof (induction es arbitrary: s)
  case Nil
  show ?case by (simp add: same_tensors_refl)
next
  case (Cons e es)
  show ?case using same_tensors_trans[OF epoch_same_tensors Cons] by simp
qed

lemma ppo_update_same_tensors: "same_tensors s (ppo_update C cfg s)"
  by (simp add: ppo_update_def epochs_same_tensors)





lemma new_events_append: "trace s' = trace s @ ev \<Longrightarrow> new_events s s' = ev"
  by (simp add: new_events_def)






section \<open>The tensors of a minibatch (lines 151 to 163)\<close>

text \<open>Flattening the first two dimensions: row \<open>i\<close> of the view is entry \<open>(i div n, i mod n)\<close>.\<close>

lemma concat_nth_shaped:
  "shaped k n xs \<Longrightarrow> i < k * n \<Longrightarrow> concat xs ! i = xs ! (i div n) ! (i mod n)"
proof (induction xs arbitrary: k i)
  case Nil
  then show ?case by (simp add: shaped_def)
next
  case (Cons r rs)
  obtain k' where k: "k = Suc k'" using Cons.prems(1) by (cases k) (auto simp: shaped_def)
  have sh: "shaped k' n rs" and lr: "length r = n"
    using Cons.prems(1) k by (auto simp: shaped_def)
  have n: "0 < n" using Cons.prems(2) by (cases n) auto
  show ?case
  proof (cases "i < n")
    case True
    then show ?thesis using lr by (simp add: nth_append)
  next
    case False
    then have ge: "n \<le> i" by simp
    then have lt: "i - n < k' * n" using Cons.prems(2) k by simp
    have d: "i div n = Suc ((i - n) div n)" and m: "i mod n = (i - n) mod n"
      using ge n by (simp_all add: le_div_geq le_mod_geq)
    show ?thesis
      using Cons.IH[OF sh lt] False lr by (simp add: nth_append d m)
  qed
qed


lemma length_gather: "length (gather xs indices) = length indices"
  by (simp add: gather_def)

lemma shaped_butlast: "shaped (Suc k) n xs \<Longrightarrow> shaped k n (butlast xs)"
  by (auto simp: shaped_def dest: in_set_butlastD)

lemma flat_index:
  assumes "i < n * T"
  shows "i div n < T" and "i mod n < n" and "i < T * n" and "i < Suc T * n"
proof -
  have n: "0 < n" using assms by (cases n) auto
  show "i div n < T" using assms n by (simp add: less_mult_imp_div_less mult.commute)
  show "i mod n < n" using n by simp
  show "i < T * n" using assms by (simp add: mult.commute)
  then show "i < Suc T * n" by simp
qed

lemma shaped_map2:
  assumes "shaped k n xs" and "shaped k n ys"
    and "\<And>a b. length a = n \<Longrightarrow> length b = n \<Longrightarrow> length (f a b) = n"
  shows "shaped k n (map2 f xs ys)"
proof -
  have "length row = n" if "row \<in> set (map2 f xs ys)" for row
  proof -
    from that obtain a b where ab: "(a, b) \<in> set (zip xs ys)" "row = f a b"
      by auto
    then have "a \<in> set xs" "b \<in> set ys" "row = f a b"
      by (auto dest: set_zip_leftD set_zip_rightD)
    then show ?thesis using assms by (simp add: shaped_def)
  qed
  then show ?thesis using assms(1,2) by (simp add: shaped_def)
qed

lemma shaped_raw_advantages:
  assumes "wf_state cfg s"
  shows "shaped (t_max cfg) (n_worker cfg) (raw_advantages s)"
    and "t < t_max cfg \<Longrightarrow> w < n_worker cfg
         \<Longrightarrow> raw_advantages s ! t ! w = returns s ! t ! w - value_predictions s ! t ! w"
proof -
  have r: "shaped (Suc (t_max cfg)) (n_worker cfg) (returns s)"
    and v: "shaped (Suc (t_max cfg)) (n_worker cfg) (value_predictions s)"
    using assms by (simp_all add: wf_state_def)
  have br: "shaped (t_max cfg) (n_worker cfg) (butlast (returns s))"
    and bv: "shaped (t_max cfg) (n_worker cfg) (butlast (value_predictions s))"
    using r v by (simp_all add: shaped_butlast)
  show "shaped (t_max cfg) (n_worker cfg) (raw_advantages s)"
    unfolding raw_advantages_def using br bv by (rule shaped_map2) (simp add: length_vsub)
  show "raw_advantages s ! t ! w = returns s ! t ! w - value_predictions s ! t ! w"
    if "t < t_max cfg" "w < n_worker cfg"
    using that br bv r v
    by (simp add: raw_advantages_def shaped_def nth_butlast nth_vsub)
qed

lemma shaped_normalized_advantages:
  assumes "wf_state cfg s"
  shows "shaped (t_max cfg) (n_worker cfg) (normalized_advantages s)"
    and "t < t_max cfg \<Longrightarrow> w < n_worker cfg
         \<Longrightarrow> normalized_advantages s ! t ! w =
             normalize_entry (concat (raw_advantages s))
               (returns s ! t ! w - value_predictions s ! t ! w)"
  using shaped_raw_advantages[OF assms]
  by (auto simp: normalized_advantages_def Let_def shaped_def)




section \<open>Normalized advantages and the losses of a minibatch\<close>

text \<open>When the normalization of the advantages is a number.\<close>

lemma all_equal_mean:
  assumes "all_equal xs" and "x \<in> set xs"
  shows "mean_of xs = x"
proof -
  have "replicate (length xs) x = xs"
    using assms by (intro replicate_length_same) (auto simp: all_equal_def)
  then have "sum_list xs = real (length xs) * x"
    by (metis sum_list_replicate)
  moreover have "xs \<noteq> []" using assms(2) by auto
  ultimately show ?thesis by (simp add: mean_of_def)
qed

lemma squares_zero_iff:
  "sum_list (map (\<lambda>x. (x - m)\<^sup>2) xs) = 0 \<longleftrightarrow> (\<forall>x \<in> set xs. x = (m::real))"
proof -
  have "sum_list (map (\<lambda>x. (x - m)\<^sup>2) xs) = 0 \<longleftrightarrow> (\<forall>y \<in> set (map (\<lambda>x. (x - m)\<^sup>2) xs). y = 0)"
    by (intro sum_list_nonneg_eq_0_iff) auto
  then show ?thesis by auto
qed

lemma std_of_zero_iff:
  assumes "2 \<le> length xs"
  shows "std_of xs = 0 \<longleftrightarrow> all_equal xs"
proof -
  have pos: "0 < real (length xs - 1)" using assms by simp
  have "std_of xs = 0 \<longleftrightarrow> sum_list (map (\<lambda>x. (x - mean_of xs)\<^sup>2) xs) = 0"
    using pos by (simp add: std_of_def)
  also have "\<dots> \<longleftrightarrow> (\<forall>x \<in> set xs. x = mean_of xs)" by (rule squares_zero_iff)
  also have "\<dots> \<longleftrightarrow> all_equal xs"
  proof
    assume "\<forall>x \<in> set xs. x = mean_of xs"
    then show "all_equal xs" unfolding all_equal_def by metis
  next
    assume "all_equal xs"
    then show "\<forall>x \<in> set xs. x = mean_of xs" using all_equal_mean by metis
  qed
  finally show ?thesis .
qed


lemma all_equal_short: "length xs \<le> 1 \<Longrightarrow> all_equal xs"
  by (cases xs) (auto simp: all_equal_def)

lemma normalize_entry_eq:
  "normalize_entry flat a =
     (if all_equal flat then None else Some ((a - mean_of flat) / std_of flat))"
proof (cases "length flat \<le> 1")
  case True
  then show ?thesis
    by (simp add: all_equal_short normalize_entry_def tstd_def tmean_def)
next
  case False
  then have l: "2 \<le> length flat" and ne: "flat \<noteq> []" by auto
  have m: "tmean flat = Some (mean_of flat)" using ne by (simp add: tmean_def mean_of_def)
  have s: "tstd flat = Some (std_of flat)" using False by (simp add: tstd_def std_of_def mean_of_def)
  show ?thesis
    using std_of_zero_iff[OF l] by (simp add: normalize_entry_def m s)
qed


text \<open>Sums and means of numbers and of NaN.\<close>

lemma nsum_Some: "nsum (map Some xs) = Some (sum_list xs)"
  by (induction xs) simp_all

lemma nmean_Some: "xs \<noteq> [] \<Longrightarrow> nmean (map Some xs) = Some (sum_list xs / real (length xs))"
  by (simp add: nmean_def nsum_Some)



text \<open>The minibatch step written out.\<close>

lemma minibatch_result:
  fixes C cfg adv s indices
  defines "states_batch \<equiv> map (\<lambda>ob. gather (butlast ob) indices) (observations s)"
  defines "policy \<equiv> fst (fst (model_forward C states_batch (world s)))"
  defines "vals \<equiv> snd (fst (model_forward C states_batch (world s)))"
  defines "ratio \<equiv> map exp (vsub (get_log_probs policy (gather (actions s) indices))
                                   (gather (old_log_probs s) indices))"
  defines "la \<equiv> nneg (nmean (map2 nmin (map2 nmul ratio (gather adv indices))
                  (map2 nmul (map (clamp (1 - epsilon cfg) (1 + epsilon cfg)) ratio) (gather adv indices))))"
  defines "lv \<equiv> tmean (map (\<lambda>d. d\<^sup>2) (vsub (gather (butlast (returns s)) indices) vals))"
  defines "le \<equiv> calc_entropy policy"
  shows "trace (minibatch C cfg adv s indices) = trace s @ [Minibatch indices, Model_update [la, lv, le]]"
    and "world (minibatch C cfg adv s indices) =
           model_update C [la, lv, le] (snd (model_forward C states_batch (world s)))"
    and "last_losses (minibatch C cfg adv s indices) = Some (la, lv, le)"
proof -
  obtain pol vs w1 where f: "model_forward C states_batch (world s) = ((pol, vs), w1)"
    by (metis prod.exhaust)
  have p: "policy = pol" "vals = vs" by (simp_all add: policy_def vals_def f)
  have m: "minibatch C cfg adv s indices =
     s\<lparr> world := model_update C [la, lv, le] w1,
        last_losses := Some (la, lv, le),
        trace := trace s @ [Minibatch indices, Model_update [la, lv, le]] \<rparr>"
    unfolding minibatch_def Let_def f[unfolded states_batch_def] prod.case
      la_def lv_def le_def ratio_def p ..
  show "trace (minibatch C cfg adv s indices) = trace s @ [Minibatch indices, Model_update [la, lv, le]]"
    and "world (minibatch C cfg adv s indices) =
           model_update C [la, lv, le] (snd (model_forward C states_batch (world s)))"
    and "last_losses (minibatch C cfg adv s indices) = Some (la, lv, le)"
    by (simp_all add: m f)
qed



lemma calculate_returns_wf:
  assumes wf: "wf_state cfg s" and model: "model_shaped C" and obs: "obs_sizes cfg \<noteq> []"
  shows "wf_state cfg (calculate_returns C cfg s)"
proof -
  let ?T = "t_max cfg" and ?n = "n_worker cfg"
  define v where "v = fst (model_forward_value C (map last (observations s)) (world s))"
  define vps where "vps = (value_predictions s)[length (value_predictions s) - 1 := v]"
  define s' where "s' = calculate_returns C cfg s"
  have ne: "observations s \<noteq> []" using wf obs by (auto simp: wf_state_def)
  have "shaped (?T + 1) ?n (hd (observations s))"
    using wf ne by (simp add: wf_state_def)
  then have "length (last (hd (observations s))) = ?n"
    by (simp add: shaped_def last_slot[where k="?T"])
  then have lv: "length v = ?n"
    using model ne unfolding model_shaped_def v_def
    by (metis (no_types, lifting) hd_map map_is_Nil_conv)
  have sh: "shaped ?T ?n (rewards s)" "shaped ?T ?n (masks s)" "shaped (?T + 1) ?n (value_predictions s)"
    "shaped (?T + 1) ?n (returns s)"
    using wf by (auto simp: wf_state_def)
  have vsh: "shaped (?T + 1) ?n vps"
    unfolding vps_def using sh lv by (simp add: shaped_update)
  have vp': "value_predictions s' = vps"
    by (simp add: s'_def vps_def v_def calculate_returns_fields)
  have ret': "returns s' = snd (foldl (gae_step (gamma cfg) (gae_lambda cfg) (rewards s) vps (masks s))
                                      (None, returns s) (rev [0..<?T]))"
    by (simp add: s'_def vps_def v_def calculate_returns_def Let_def split: prod.splits)
  have lr: "length (returns s) = ?T + 1" using sh(4) by (simp add: shaped_def)
  from gae_loop[OF sh(1) sh(2) vsh lr, of 0 "gamma cfg" "gae_lambda cfg"]
  have loop: "length (returns s') = ?T + 1"
    "\<forall>t. ?T \<le> t \<longrightarrow> returns s' ! t = returns s ! t"
    "\<forall>t. t < ?T \<longrightarrow> length (returns s' ! t) = ?n"
    by (auto simp: ret' split: prod.splits)
  have "length row = ?n" if mem: "row \<in> set (returns s')" for row
  proof -
    obtain t where t: "t < ?T + 1" "row = returns s' ! t"
      using mem loop(1) by (metis in_set_conv_nth)
    show ?thesis
    proof (cases "t < ?T")
      case True
      then show ?thesis using loop(3) t by blast
    next
      case False
      then have "row = returns s ! t" using loop(2) t by simp
      then show ?thesis using sh(4) t(1) by (simp add: shaped_def)
    qed
  qed
  then have rsh: "shaped (?T + 1) ?n (returns s')" using loop(1) by (simp add: shaped_def)
  have fields: "rewards s' = rewards s" "masks s' = masks s" "actions s' = actions s"
    "old_log_probs s' = old_log_probs s" "observations s' = observations s"
    by (simp_all add: s'_def calculate_returns_fields)
  have "wf_state cfg s'"
    unfolding wf_state_def fields vp' using wf rsh vsh by (simp add: wf_state_def)
  then show ?thesis by (simp add: s'_def)
qed

lemma demo_returns_wf:
  "wf_state (demo_config t n b)
     (calculate_returns (demo n) (demo_config t n b)
        (rollout (demo n) (demo_config t n b) (initial_state (demo n) (demo_config t n b) w)))"
  by (intro calculate_returns_wf demo_rollout_wf demo_model_shaped) (simp add: demo_config_simps)



lemma batch_policy_shape:
  assumes wf: "wf_state cfg s" and model: "model_shaped C" and obs: "obs_sizes cfg \<noteq> []"
  shows "length (fst (fst (model_forward C (map (\<lambda>ob. gather (butlast ob) indices) (observations s)) w)))
           = length indices"
    and "length (snd (fst (model_forward C (map (\<lambda>ob. gather (butlast ob) indices) (observations s)) w)))
           = length indices"
proof -
  let ?sb = "map (\<lambda>ob. gather (butlast ob) indices) (observations s)"
  have ne: "?sb \<noteq> []" using wf obs by (auto simp: wf_state_def)
  have "length (hd ?sb) = length indices"
    using ne by (simp add: hd_map length_gather)
  then show "length (fst (fst (model_forward C ?sb w))) = length indices"
    and "length (snd (fst (model_forward C ?sb w))) = length indices"
    using model ne unfolding model_shaped_def by metis+
qed

lemma gathered_entries:
  assumes wf: "wf_state cfg s" and idx: "\<forall>i \<in> set indices. i < n_worker cfg * t_max cfg"
  shows "gather (actions s) indices =
           map (\<lambda>i. actions s ! (i div n_worker cfg) ! (i mod n_worker cfg)) indices"
    and "gather (old_log_probs s) indices =
           map (\<lambda>i. old_log_probs s ! (i div n_worker cfg) ! (i mod n_worker cfg)) indices"
    and "gather (butlast (returns s)) indices =
           map (\<lambda>i. returns s ! (i div n_worker cfg) ! (i mod n_worker cfg)) indices"
    and "gather (normalized_advantages s) indices =
           map (\<lambda>i. normalize_entry (concat (raw_advantages s))
                       (returns s ! (i div n_worker cfg) ! (i mod n_worker cfg)
                         - value_predictions s ! (i div n_worker cfg) ! (i mod n_worker cfg))) indices"
proof -
  let ?n = "n_worker cfg" and ?T = "t_max cfg"
  have sh: "shaped ?T ?n (actions s)" "shaped (Suc ?T) ?n (returns s)"
    "shaped (Suc ?T) ?n (old_log_probs s)"
    using wf by (simp_all add: wf_state_def)
  have fi: "i div ?n < ?T" "i mod ?n < ?n" "i < ?T * ?n" "i < Suc ?T * ?n" if "i \<in> set indices" for i
    using flat_index[of i ?n ?T] idx that by blast+
  show "gather (actions s) indices = map (\<lambda>i. actions s ! (i div ?n) ! (i mod ?n)) indices"
    unfolding gather_def using fi(3) by (intro map_cong refl concat_nth_shaped[OF sh(1)])
  show "gather (old_log_probs s) indices = map (\<lambda>i. old_log_probs s ! (i div ?n) ! (i mod ?n)) indices"
    unfolding gather_def using fi(4) by (intro map_cong refl concat_nth_shaped[OF sh(3)])
  have "concat (butlast (returns s)) ! i = returns s ! (i div ?n) ! (i mod ?n)" if "i \<in> set indices" for i
    using concat_nth_shaped[OF shaped_butlast[OF sh(2)] fi(3)[OF that]] fi(1)[OF that] sh(2)
    by (simp add: nth_butlast shaped_def)
  then show "gather (butlast (returns s)) indices = map (\<lambda>i. returns s ! (i div ?n) ! (i mod ?n)) indices"
    unfolding gather_def by (intro map_cong refl)
  have "concat (normalized_advantages s) ! i =
          normalize_entry (concat (raw_advantages s))
            (returns s ! (i div ?n) ! (i mod ?n) - value_predictions s ! (i div ?n) ! (i mod ?n))"
    if "i \<in> set indices" for i
    using concat_nth_shaped[OF shaped_normalized_advantages(1)[OF wf] fi(3)[OF that]]
      shaped_normalized_advantages(2)[OF wf fi(1)[OF that] fi(2)[OF that]]
    by simp
  then show "gather (normalized_advantages s) indices =
           map (\<lambda>i. normalize_entry (concat (raw_advantages s))
                       (returns s ! (i div ?n) ! (i mod ?n)
                         - value_predictions s ! (i div ?n) ! (i mod ?n))) indices"
    unfolding gather_def by (intro map_cong refl)
qed

lemma surrogate_Some:
  "length rs = length as \<Longrightarrow>
   map2 nmin (map2 nmul rs (map Some as)) (map2 nmul (map f rs) (map Some as)) =
     map Some (map2 (\<lambda>r a. min (r * a) (f r * a)) rs as)"
  by (induction rs as rule: list_induct2) (simp_all add: nmul_def nmin_def)

lemma map2_squares: "map (\<lambda>d. d\<^sup>2) (vsub xs ys) = map2 (\<lambda>r v. (r - v)\<^sup>2) xs (ys :: real list)"
  by (auto simp: vsub_def)

text \<open>
  Claim C2. For a non-empty minibatch of sample indices, when the advantages are not all
  equal (so that their normalization is a number, see C8), the first loss passed to
  \<^verbatim>\<open>model.update\<close> is the clipped surrogate objective: the negated mean over the
  minibatch of \<open>min (ratio * A) (clamp(ratio, 1 - epsilon, 1 + epsilon) * A)\<close>, where for
  the sample \<open>i\<close> of step \<open>i div n_worker\<close> and worker \<open>i mod n_worker\<close> the ratio is the
  exponential of the current log-probability of the stored action minus the
  log-probability stored during the rollout, and \<open>A\<close> is the advantage
  \<open>returns - value_predictions\<close> of the same sample, normalized by mean and standard
  deviation.
\<close>

theorem policy_loss_clipped_surrogate:
  assumes wf: "wf_state cfg s" and model: "model_shaped C" and obs: "obs_sizes cfg \<noteq> []"
    and ne: "indices \<noteq> []" and idx: "\<forall>i \<in> set indices. i < n_worker cfg * t_max cfg"
    and num: "\<not> all_equal (concat (raw_advantages s))"
  shows "let n = n_worker cfg;
             flat = concat (raw_advantages s);
             states_batch = map (\<lambda>ob. gather (butlast ob) indices) (observations s);
             policy = fst (fst (model_forward C states_batch (world s)));
             ratios = map2 (\<lambda>row i. exp (log_softmax row ! (actions s ! (i div n) ! (i mod n))
                                          - old_log_probs s ! (i div n) ! (i mod n))) policy indices;
             advs = map (\<lambda>i. (returns s ! (i div n) ! (i mod n)
                                - value_predictions s ! (i div n) ! (i mod n) - mean_of flat)
                              / std_of flat) indices;
             s' = minibatch C cfg (normalized_advantages s) s indices
         in length ratios = length indices \<and>
            (\<exists>lv le.
               trace s' = trace s @ [Minibatch indices,
                            Model_update [Some (clipped_surrogate (epsilon cfg) ratios advs), lv, le]] \<and>
               world s' = model_update C [Some (clipped_surrogate (epsilon cfg) ratios advs), lv, le]
                            (snd (model_forward C states_batch (world s))))"
proof -
  let ?n = "n_worker cfg"
  define flat where "flat = concat (raw_advantages s)"
  define states_batch where "states_batch = map (\<lambda>ob. gather (butlast ob) indices) (observations s)"
  define policy where "policy = fst (fst (model_forward C states_batch (world s)))"
  define ratios where "ratios = map2 (\<lambda>row i. exp (log_softmax row ! (actions s ! (i div ?n) ! (i mod ?n))
                                          - old_log_probs s ! (i div ?n) ! (i mod ?n))) policy indices"
  define advs where "advs = map (\<lambda>i. (returns s ! (i div ?n) ! (i mod ?n)
                                - value_predictions s ! (i div ?n) ! (i mod ?n) - mean_of flat)
                              / std_of flat) indices"
  define eps_lo where "eps_lo = 1 - epsilon cfg"
  define eps_hi where "eps_hi = 1 + epsilon cfg"
  note g = gathered_entries[OF wf idx]
  have lp: "length policy = length indices"
    unfolding policy_def states_batch_def by (rule batch_policy_shape(1)[OF wf model obs])
  have lr: "length ratios = length indices" by (simp add: ratios_def lp)
  have ratio: "map exp (vsub (get_log_probs policy (gather (actions s) indices))
                             (gather (old_log_probs s) indices)) = ratios"
    unfolding g ratios_def using lp
    by (intro nth_equalityI) (simp_all add: get_log_probs_def vsub_def)
  have tgt: "gather (normalized_advantages s) indices = map Some advs"
    unfolding g(4) advs_def using num by (simp add: normalize_entry_eq flat_def)
  have la: "length advs = length indices" by (simp add: advs_def)
  have loss: "nneg (nmean (map2 nmin (map2 nmul ratios (map Some advs))
                  (map2 nmul (map (clamp eps_lo eps_hi) ratios) (map Some advs))))
               = Some (clipped_surrogate (epsilon cfg) ratios advs)"
  proof -
    define xs where "xs = map2 (\<lambda>r a. min (r * a) (clamp eps_lo eps_hi r * a)) ratios advs"
    have 1: "map2 nmin (map2 nmul ratios (map Some advs))
               (map2 nmul (map (clamp eps_lo eps_hi) ratios) (map Some advs)) = map Some xs"
      unfolding xs_def by (rule surrogate_Some) (simp add: lr la)
    have lx: "length xs = length ratios" by (simp add: xs_def lr la)
    then have "xs \<noteq> []" using ne lr by auto
    then have 2: "nmean (map Some xs) = Some (sum_list xs / real (length xs))"
      by (rule nmean_Some)
    show ?thesis
      unfolding 1 2 lx by (simp add: nneg_def clipped_surrogate_def xs_def eps_lo_def eps_hi_def)
  qed
  have ex: "\<exists>lv le.
      trace (minibatch C cfg (normalized_advantages s) s indices) =
        trace s @ [Minibatch indices, Model_update [Some (clipped_surrogate (epsilon cfg) ratios advs), lv, le]] \<and>
      world (minibatch C cfg (normalized_advantages s) s indices) =
        model_update C [Some (clipped_surrogate (epsilon cfg) ratios advs), lv, le]
          (snd (model_forward C states_batch (world s)))"
    unfolding minibatch_result(1,2)[of C cfg "normalized_advantages s" s indices]
      states_batch_def[symmetric] policy_def[symmetric] ratio tgt
      loss[unfolded eps_lo_def eps_hi_def]
    by blast
  show ?thesis
    unfolding Let_def flat_def[symmetric] states_batch_def[symmetric] policy_def[symmetric]
      ratios_def[symmetric] advs_def[symmetric]
    using lr ex by blast
qed

lemma demo_raw_advantages:
  "raw_advantages (calculate_returns (demo 2) (demo_config 2 2 1)
      (rollout (demo 2) (demo_config 2 2 1) (initial_state (demo 2) (demo_config 2 2 1) 0)))
   = [[1, 21 / 8], [1, 5 / 2]]"
  by (simp add: raw_advantages_def calculate_returns_def rollout_def rollout_step_def initial_state_def
      demo_def demo_config_def store_slot_def enumerate_eq_zip upt_2 sample_action_def done_masks_def
      mask_state_def gae_step_def vadd_def vsub_def vmul_def smul_def Let_def numeral_2_eq_2 upt_rec)

lemma demo_rollout_log_probs:
  "old_log_probs (calculate_returns (demo 2) (demo_config 2 2 1)
      (rollout (demo 2) (demo_config 2 2 1) (initial_state (demo 2) (demo_config 2 2 1) 0)))
   = [[ln (1 / 2), ln (1 / 2)], [ln (1 / 2), ln (1 / 2)], [0, 0]]"
  "actions (calculate_returns (demo 2) (demo_config 2 2 1)
      (rollout (demo 2) (demo_config 2 2 1) (initial_state (demo 2) (demo_config 2 2 1) 0)))
   = [[0, 1], [0, 1]]"
  by (simp_all add: calculate_returns_fields rollout_def rollout_step_def initial_state_def
      demo_def demo_config_def store_slot_def enumerate_eq_zip upt_2 sample_action_def done_masks_def
      mask_state_def get_log_probs_def log_softmax_def Let_def numeral_2_eq_2 upt_rec)

theorem policy_loss_clipped_surrogate_witness:
  "wf_state (demo_config 2 2 1)
     (calculate_returns (demo 2) (demo_config 2 2 1)
        (rollout (demo 2) (demo_config 2 2 1) (initial_state (demo 2) (demo_config 2 2 1) 0))) \<and>
   model_shaped (demo 2) \<and> obs_sizes (demo_config 2 2 1) \<noteq> [] \<and> [3, 2] \<noteq> ([]::nat list) \<and>
   list_all (\<lambda>i. i < n_worker (demo_config 2 2 1) * t_max (demo_config 2 2 1)) [3, 2] \<and>
   (let s = calculate_returns (demo 2) (demo_config 2 2 1)
              (rollout (demo 2) (demo_config 2 2 1) (initial_state (demo 2) (demo_config 2 2 1) 0));
        flat = concat (raw_advantages s);
        advs = map (\<lambda>i. (returns s ! (i div 2) ! (i mod 2)
                           - value_predictions s ! (i div 2) ! (i mod 2) - mean_of flat)
                         / std_of flat) [3, 2]
    in flat = [1, 21 / 8, 1, 5 / 2] \<and> \<not> all_equal flat \<and>
       (\<exists>lv le. trace (minibatch (demo 2) (demo_config 2 2 1) (normalized_advantages s) s [3, 2]) =
          trace s @ [Minibatch [3, 2],
                     Model_update [Some (clipped_surrogate (1 / 5) [1, 1] advs), lv, le]]))"
proof -
  let ?s = "calculate_returns (demo 2) (demo_config 2 2 1)
              (rollout (demo 2) (demo_config 2 2 1) (initial_state (demo 2) (demo_config 2 2 1) 0))"
  note wf = demo_returns_wf[of 2 2 1 "0::nat"]
  note m = demo_model_shaped[of 2]
  have obs: "obs_sizes (demo_config 2 2 1) \<noteq> []" by (simp add: demo_config_simps)
  have ne: "[3, 2] \<noteq> ([]::nat list)" by simp
  have idx: "\<forall>i \<in> set [3::nat, 2]. i < n_worker (demo_config 2 2 1) * t_max (demo_config 2 2 1)"
    by (simp add: demo_config_simps)
  have flat: "concat (raw_advantages ?s) = [1, 21 / 8, 1, 5 / 2]"
    using demo_raw_advantages by simp
  have num: "\<not> all_equal (concat (raw_advantages ?s))"
    unfolding flat by (simp add: all_equal_def)
  have pol: "fst (fst (model_forward (demo 2) xs w)) = map (\<lambda>x. [0, 0]) (hd xs)" for xs w
    by (simp add: demo_def)
  have d: "(3::nat) div 2 = 1" "(3::nat) mod 2 = 1" "(2::nat) div 2 = 1" "(2::nat) mod 2 = 0"
    by simp_all
  have ratios: "map2 (\<lambda>row i. exp (log_softmax row ! (actions ?s ! (i div 2) ! (i mod 2))
                                   - old_log_probs ?s ! (i div 2) ! (i mod 2)))
                  (map (\<lambda>x. [0, 0]) (gather (butlast (observations ?s ! 0)) [3, 2])) [3, 2] = [1, 1]"
    unfolding demo_rollout_log_probs by (simp add: gather_def log_softmax_def d)
  have hdo: "hd (map (\<lambda>ob. gather (butlast ob) [3, 2]) (observations ?s))
               = gather (butlast (observations ?s ! 0)) [3, 2]"
    using wf by (cases "observations ?s") (simp_all add: wf_state_def demo_config_simps)
  note th = policy_loss_clipped_surrogate[OF wf m obs ne idx num,
      unfolded Let_def demo_config_simps pol hdo ratios]
  have ex: "\<exists>lv le. trace (minibatch (demo 2) (demo_config 2 2 1) (normalized_advantages ?s) ?s [3, 2]) =
          trace ?s @ [Minibatch [3, 2],
                     Model_update [Some (clipped_surrogate (1 / 5) [1, 1]
                       (map (\<lambda>i. (returns ?s ! (i div 2) ! (i mod 2)
                           - value_predictions ?s ! (i div 2) ! (i mod 2)
                           - mean_of (concat (raw_advantages ?s)))
                         / std_of (concat (raw_advantages ?s))) [3, 2])), lv, le]]"
    using th by blast
  have il: "list_all (\<lambda>i. i < n_worker (demo_config 2 2 1) * t_max (demo_config 2 2 1)) [3, 2]"
    by (simp add: demo_config_simps)
  show ?thesis
    unfolding Let_def using wf m obs ne il flat num ex by (intro conjI)
qed

text \<open>
  Claim C5. For a non-empty minibatch the value loss is the mean squared error between
  the stored returns of the sampled indices and the values the network predicts now for
  those samples, and \<^verbatim>\<open>model.update\<close> receives it as the second of three losses,
  after the policy loss and before the entropy term of the current policy.
\<close>

theorem value_loss_mean_squared_error:
  assumes wf: "wf_state cfg s" and model: "model_shaped C" and obs: "obs_sizes cfg \<noteq> []"
    and ne: "indices \<noteq> []" and idx: "\<forall>i \<in> set indices. i < n_worker cfg * t_max cfg"
  shows "let n = n_worker cfg;
             states_batch = map (\<lambda>ob. gather (butlast ob) indices) (observations s);
             policy = fst (fst (model_forward C states_batch (world s)));
             vals = snd (fst (model_forward C states_batch (world s)));
             rets = map (\<lambda>i. returns s ! (i div n) ! (i mod n)) indices;
             s' = minibatch C cfg adv s indices
         in length vals = length rets \<and>
            (\<exists>la.
               trace s' = trace s @ [Minibatch indices,
                            Model_update [la, Some (mean_squared_error rets vals), calc_entropy policy]] \<and>
               world s' = model_update C [la, Some (mean_squared_error rets vals), calc_entropy policy]
                            (snd (model_forward C states_batch (world s))) \<and>
               last_losses s' = Some (la, Some (mean_squared_error rets vals), calc_entropy policy))"
proof -
  let ?n = "n_worker cfg"
  define states_batch where "states_batch = map (\<lambda>ob. gather (butlast ob) indices) (observations s)"
  define policy where "policy = fst (fst (model_forward C states_batch (world s)))"
  define vals where "vals = snd (fst (model_forward C states_batch (world s)))"
  define rets where "rets = map (\<lambda>i. returns s ! (i div ?n) ! (i mod ?n)) indices"
  note g = gathered_entries(3)[OF wf idx]
  have lv: "length vals = length indices"
    unfolding vals_def states_batch_def by (rule batch_policy_shape(2)[OF wf model obs])
  have lr: "length rets = length indices" by (simp add: rets_def)
  define xs where "xs = map2 (\<lambda>r v. (r - v)\<^sup>2) rets vals"
  have lx: "length xs = length rets" by (simp add: xs_def lv lr)
  then have "xs \<noteq> []" using ne lr by auto
  then have "tmean xs = Some (sum_list xs / real (length xs))" by (simp add: tmean_def)
  then have loss: "tmean (map (\<lambda>d. d\<^sup>2) (vsub (gather (butlast (returns s)) indices) vals))
                = Some (mean_squared_error rets vals)"
    unfolding g rets_def[symmetric] map2_squares xs_def[symmetric] lx
    by (simp add: mean_squared_error_def xs_def)
  have ex: "\<exists>la.
      trace (minibatch C cfg adv s indices) =
        trace s @ [Minibatch indices, Model_update [la, Some (mean_squared_error rets vals), calc_entropy policy]] \<and>
      world (minibatch C cfg adv s indices) =
        model_update C [la, Some (mean_squared_error rets vals), calc_entropy policy]
          (snd (model_forward C states_batch (world s))) \<and>
      last_losses (minibatch C cfg adv s indices) =
        Some (la, Some (mean_squared_error rets vals), calc_entropy policy)"
    unfolding minibatch_result[of C cfg adv s indices]
      states_batch_def[symmetric] policy_def[symmetric] vals_def[symmetric] loss
    by blast
  show ?thesis
    unfolding Let_def states_batch_def[symmetric] policy_def[symmetric] vals_def[symmetric]
      rets_def[symmetric]
    using lv lr ex by simp
qed

lemma demo_returns:
  "returns (calculate_returns (demo 2) (demo_config 2 2 1)
      (rollout (demo 2) (demo_config 2 2 1) (initial_state (demo 2) (demo_config 2 2 1) 0)))
   = [[1, 21 / 8], [1, 5 / 2], [0, 0]]"
  by (simp add: calculate_returns_def rollout_def rollout_step_def initial_state_def
      demo_def demo_config_def store_slot_def enumerate_eq_zip upt_2 sample_action_def done_masks_def
      mask_state_def gae_step_def vadd_def vsub_def vmul_def smul_def Let_def numeral_2_eq_2 upt_rec)

theorem value_loss_mean_squared_error_witness:
  "wf_state (demo_config 2 2 1)
     (calculate_returns (demo 2) (demo_config 2 2 1)
        (rollout (demo 2) (demo_config 2 2 1) (initial_state (demo 2) (demo_config 2 2 1) 0))) \<and>
   model_shaped (demo 2) \<and> obs_sizes (demo_config 2 2 1) \<noteq> [] \<and> [3, 2] \<noteq> ([]::nat list) \<and>
   list_all (\<lambda>i. i < n_worker (demo_config 2 2 1) * t_max (demo_config 2 2 1)) [3, 2] \<and>
   mean_squared_error [5 / 2, 1] [0, 0] = 29 / 8 \<and>
   (let s = calculate_returns (demo 2) (demo_config 2 2 1)
              (rollout (demo 2) (demo_config 2 2 1) (initial_state (demo 2) (demo_config 2 2 1) 0))
    in \<exists>la. trace (minibatch (demo 2) (demo_config 2 2 1) (normalized_advantages s) s [3, 2]) =
          trace s @ [Minibatch [3, 2],
                     Model_update [la, Some (mean_squared_error [5 / 2, 1] [0, 0]),
                                   calc_entropy [[0, 0], [0, 0]]]])"
proof -
  let ?s = "calculate_returns (demo 2) (demo_config 2 2 1)
              (rollout (demo 2) (demo_config 2 2 1) (initial_state (demo 2) (demo_config 2 2 1) 0))"
  note wf = demo_returns_wf[of 2 2 1 "0::nat"]
  note m = demo_model_shaped[of 2]
  have obs: "obs_sizes (demo_config 2 2 1) \<noteq> []" by (simp add: demo_config_simps)
  have ne: "[3, 2] \<noteq> ([]::nat list)" by simp
  have idx: "\<forall>i \<in> set [3::nat, 2]. i < n_worker (demo_config 2 2 1) * t_max (demo_config 2 2 1)"
    by (simp add: demo_config_simps)
  have il: "list_all (\<lambda>i. i < n_worker (demo_config 2 2 1) * t_max (demo_config 2 2 1)) [3, 2]"
    by (simp add: demo_config_simps)
  have d: "(3::nat) div 2 = 1" "(3::nat) mod 2 = 1" "(2::nat) div 2 = 1" "(2::nat) mod 2 = 0"
    by simp_all
  have pol: "fst (fst (model_forward (demo 2) xs w)) = map (\<lambda>x. [0, 0]) (hd xs)"
    "snd (fst (model_forward (demo 2) xs w)) = map (\<lambda>x. 0) (hd xs)" for xs w
    by (simp_all add: demo_def)
  have hdo: "hd (map (\<lambda>ob. gather (butlast ob) [3, 2]) (observations ?s))
               = gather (butlast (observations ?s ! 0)) [3, 2]"
    using wf by (cases "observations ?s") (simp_all add: wf_state_def demo_config_simps)
  have gl: "map f (gather x [3, 2]) = [f (concat x ! 3), f (concat x ! 2)]" for f :: "'a \<Rightarrow> 'b" and x
    by (simp add: gather_def)
  have rets: "map (\<lambda>i. returns ?s ! (i div 2) ! (i mod 2)) [3, 2] = [5 / 2, 1]"
    unfolding demo_returns by (simp add: d)
  have v: "mean_squared_error [5 / 2, 1] [0, 0] = 29 / 8"
    by (simp add: mean_squared_error_def power2_eq_square)
  note th = value_loss_mean_squared_error[OF wf m obs ne idx, of "normalized_advantages ?s",
      unfolded Let_def demo_config_simps pol hdo gl rets]
  have ex: "\<exists>la. trace (minibatch (demo 2) (demo_config 2 2 1) (normalized_advantages ?s) ?s [3, 2]) =
          trace ?s @ [Minibatch [3, 2],
                     Model_update [la, Some (mean_squared_error [5 / 2, 1] [0, 0]),
                                   calc_entropy [[0, 0], [0, 0]]]]"
    using th by blast
  show ?thesis
    unfolding Let_def using wf m obs ne il v ex by (intro conjI)
qed

section \<open>The update iteration and the calls it makes\<close>

text \<open>What the passes of the rollout loop stored is still there when the loop ends.\<close>

lemma rollout_prefix_trace:
  "trace (foldl (rollout_step C) s [0..<k]) =
     trace s @ map (\<lambda>m. Env_step (step_actions C (foldl (rollout_step C) s [0..<m]) m)) [0..<k]"
  by (induction k) (simp_all add: rollout_step_fields)

lemma store_slot_other:
  "j < length acc0 \<Longrightarrow> i \<noteq> slot \<Longrightarrow> store_slot slot xs acc0 ! j ! i = acc0 ! j ! i"
  by (simp add: nth_store_slot)

lemma rollout_prefix_stored:
  assumes wf: "wf_state cfg s" and env: "env_shaped cfg C" and model: "model_shaped C"
    and obs: "obs_sizes cfg \<noteq> []" and j: "j < length (obs_sizes cfg)"
  shows "m < k \<Longrightarrow> k \<le> t_max cfg \<Longrightarrow>
    (let sm = foldl (rollout_step C) s [0..<m]; sk = foldl (rollout_step C) s [0..<k]
     in actions sk ! m = step_actions C sm m \<and>
        value_predictions sk ! m = snd (step_forward C sm m) \<and>
        old_log_probs sk ! m = get_log_probs (fst (step_forward C sm m)) (step_actions C sm m) \<and>
        rewards sk ! m = fst (snd (step_env C sm m)) \<and>
        masks sk ! m = done_masks (snd (snd (step_env C sm m))) \<and>
        observations sk ! j ! (m + 1) =
          mask_state (done_masks (snd (snd (step_env C sm m)))) (fst (step_env C sm m) ! j))"
proof (induction k)
  case 0
  then show ?case by simp
next
  case (Suc k)
  let ?sk = "foldl (rollout_step C) s [0..<k]"
  have k: "k < t_max cfg" using Suc.prems by simp
  have wfk: "wf_state cfg ?sk"
    using rollout_wf_upto[OF env model obs, of k s] k wf by simp
  have len: "length (actions ?sk) = t_max cfg" "length (value_predictions ?sk) = t_max cfg + 1"
    "length (old_log_probs ?sk) = t_max cfg + 1" "length (rewards ?sk) = t_max cfg"
    "length (masks ?sk) = t_max cfg" "length (observations ?sk) = length (obs_sizes cfg)"
    using wfk by (simp_all add: wf_state_def shaped_def)
  have unf: "foldl (rollout_step C) s [0..<Suc k] = rollout_step C ?sk k" by simp
  show ?case
  proof (cases "m = k")
    case True
    show ?thesis
      unfolding unf Let_def True
      using len k stored_observation[OF wfk env k j]
      by (simp add: rollout_step_fields(1-5))
  next
    case False
    then have mk: "m < k" using Suc.prems by simp
    have ih: "actions ?sk ! m = step_actions C (foldl (rollout_step C) s [0..<m]) m"
      "value_predictions ?sk ! m = snd (step_forward C (foldl (rollout_step C) s [0..<m]) m)"
      "old_log_probs ?sk ! m = get_log_probs (fst (step_forward C (foldl (rollout_step C) s [0..<m]) m))
                                 (step_actions C (foldl (rollout_step C) s [0..<m]) m)"
      "rewards ?sk ! m = fst (snd (step_env C (foldl (rollout_step C) s [0..<m]) m))"
      "masks ?sk ! m = done_masks (snd (snd (step_env C (foldl (rollout_step C) s [0..<m]) m)))"
      "observations ?sk ! j ! (m + 1) =
          mask_state (done_masks (snd (snd (step_env C (foldl (rollout_step C) s [0..<m]) m))))
            (fst (step_env C (foldl (rollout_step C) s [0..<m]) m) ! j)"
      using Suc.IH[OF mk] k by (simp_all add: Let_def)
    have o: "observations (rollout_step C ?sk k) ! j ! (m + 1) = observations ?sk ! j ! (m + 1)"
      using len(6) j mk by (simp add: rollout_step_fields(6) store_slot_other)
    show ?thesis
      unfolding unf Let_def
      using False ih o by (simp add: rollout_step_fields(1-5))
  qed
qed

lemma rollout_trace:
  assumes wf: "wf_state cfg s" and env: "env_shaped cfg C" and model: "model_shaped C"
    and obs: "obs_sizes cfg \<noteq> []"
  shows "trace (rollout C cfg s) = trace s @ map Env_step (actions (rollout C cfg s))"
proof -
  let ?T = "t_max cfg"
  let ?sT = "foldl (rollout_step C) s [0..<?T]"
  have j: "0 < length (obs_sizes cfg)" using obs by simp
  have wfT: "wf_state cfg ?sT" using rollout_wf_upto[OF env model obs, of ?T s] wf by simp
  then have len: "length (actions ?sT) = ?T" by (simp add: wf_state_def shaped_def)
  have "step_actions C (foldl (rollout_step C) s [0..<m]) m = actions ?sT ! m" if "m < ?T" for m
    using rollout_prefix_stored[OF wf env model obs j, of m ?T] that by (simp add: Let_def)
  then have "map (\<lambda>m. Env_step (step_actions C (foldl (rollout_step C) s [0..<m]) m)) [0..<?T]
               = map (\<lambda>m. Env_step (actions ?sT ! m)) [0..<?T]"
    by simp
  also have "\<dots> = map Env_step (map (\<lambda>m. actions ?sT ! m) [0..<length (actions ?sT)])"
    by (simp add: len)
  also have "\<dots> = map Env_step (actions ?sT)" by (simp only: map_nth)
  finally show ?thesis
    unfolding rollout_def by (simp add: rollout_prefix_trace)
qed

text \<open>Which events the phases of an iteration append.\<close>

lemma appends_refl: "appends Ks s s"
  by (simp add: appends_def)

lemma appends_trans: "appends Ks s s' \<Longrightarrow> appends Ks s' s'' \<Longrightarrow> appends Ks s s''"
proof -
  assume "appends Ks s s'" "appends Ks s' s''"
  then obtain e1 e2 where "trace s' = trace s @ e1" "kind_of ` set e1 \<subseteq> Ks"
    "trace s'' = trace s' @ e2" "kind_of ` set e2 \<subseteq> Ks"
    unfolding appends_def by blast
  then have "trace s'' = trace s @ (e1 @ e2) \<and> kind_of ` set (e1 @ e2) \<subseteq> Ks" by auto
  then show ?thesis unfolding appends_def by blast
qed

lemma appends_mono: "appends Ks s s' \<Longrightarrow> Ks \<subseteq> Ls \<Longrightarrow> appends Ls s s'"
  unfolding appends_def by blast

lemma appendsI: "trace s' = trace s @ ev \<Longrightarrow> kind_of ` set ev \<subseteq> Ks \<Longrightarrow> appends Ks s s'"
  unfolding appends_def by blast

lemma minibatch_appends: "appends {K_sampler, K_minibatch, K_update} s (minibatch C cfg adv s indices)"
proof -
  obtain l where "trace (minibatch C cfg adv s indices) = trace s @ [Minibatch indices, Model_update l]"
    using minibatch_trace by blast
  then show ?thesis by (rule appendsI) simp
qed

lemma minibatches_appends:
  "appends {K_sampler, K_minibatch, K_update} s (foldl (minibatch C cfg adv) s batches)"
proof (induction batches arbitrary: s)
  case Nil
  show ?case by (simp add: appends_refl)
next
  case (Cons b bs)
  show ?case using appends_trans[OF minibatch_appends Cons] by simp
qed

lemma epoch_appends: "appends {K_sampler, K_minibatch, K_update} s (epoch C cfg adv s)"
proof -
  obtain sampled w1 where r: "subset_random_sampler C [0..<n_worker cfg * t_max cfg] (world s) = (sampled, w1)"
    by (metis prod.exhaust)
  have "appends {K_sampler, K_minibatch, K_update} s (s\<lparr> world := w1, trace := trace s @ [Sampler_created] \<rparr>)"
    by (rule appendsI[where ev="[Sampler_created]"]) simp_all
  then show ?thesis
    unfolding epoch_def r prod.case by (rule appends_trans[OF _ minibatches_appends])
qed

lemma epochs_appends:
  "appends {K_sampler, K_minibatch, K_update} s (foldl (\<lambda>s' _. epoch C cfg adv s') s es)"
proof (induction es arbitrary: s)
  case Nil
  show ?case by (simp add: appends_refl)
next
  case (Cons e es)
  show ?case using appends_trans[OF epoch_appends Cons] by simp
qed

lemma ppo_update_appends: "appends {K_sampler, K_minibatch, K_update} s (ppo_update C cfg s)"
  by (simp add: ppo_update_def epochs_appends)

lemma store_model_appends: "appends {K_other} s (store_model C name dir s)"
  by (rule appendsI[where ev="[Save_network name]"]) (simp_all add: store_model_def)

lemma store_model_same_tensors: "same_tensors s (store_model C name dir s)"
  by (simp add: same_tensors_def store_model_def)

lemma improvement_phase_appends: "appends {K_other} s (improvement_phase C A score s)"
proof -
  have "appends {K_other} s ((store_model C name dir s)\<lparr> best_score := b \<rparr>)" for name dir b
    using store_model_appends[of s C name dir] by (simp add: appends_def)
  then show ?thesis by (simp add: improvement_phase_def Let_def appends_refl)
qed

lemma improvement_phase_same_tensors: "same_tensors s (improvement_phase C A score s)"
  by (simp add: improvement_phase_def Let_def same_tensors_def store_model_def)

lemma improvement_phase_world_trace:
  "improvement_phase C A score s = s \<or>
   (\<exists>name. trace (improvement_phase C A score s) = trace s @ [Save_network name])"
  by (simp add: improvement_phase_def Let_def store_model_def)

text \<open>The end of an iteration: what it appends, and when it breaks.\<close>

lemma dump_phase_after:
  assumes "appends {K_other} s x" and "same_tensors s x"
  shows "tail_flow C A s (dump_phase C A i x)"
proof -
  have "appends {K_other} s (store_model C name dir x)" "same_tensors s (store_model C name dir x)"
    for name dir
    using appends_trans[OF assms(1) store_model_appends]
      same_tensors_trans[OF assms(2) store_model_same_tensors] by blast+
  then show ?thesis using assms by (simp add: dump_phase_def tail_flow_def)
qed

lemma evaluation_phase_flow: "tail_flow C A s (evaluation_phase C A i s)"
proof (cases "evaluator A")
  case None
  then show ?thesis
    using dump_phase_after[OF appends_refl same_tensors_refl, where C=C and A=A and i=i and s=s]
    by (simp add: evaluation_phase_def)
next
  case (Some ev)
  show ?thesis
  proof (cases "eval_interval A = 0")
    case True
    then show ?thesis
      by (simp add: evaluation_phase_def Some appends_refl same_tensors_refl tail_flow_def)
  next
    case nz: False
    show ?thesis
    proof (cases "i mod eval_interval A \<noteq> 0")
      case True
      then show ?thesis
        using dump_phase_after[OF appends_refl same_tensors_refl, where C=C and A=A and i=i and s=s] nz
        by (simp add: evaluation_phase_def Some)
    next
      case False
      obtain stats w1 where e: "ev (i div eval_interval A) (net_mode C False (world s)) = (stats, w1)"
        by (metis prod.exhaust)
      define s1 where "s1 = s\<lparr> world := net_mode C True w1,
                             trace := trace s @ [Evaluate (i div eval_interval A)] \<rparr>"
      have a1: "appends {K_other} s s1"
        by (rule appendsI[where ev="[Evaluate (i div eval_interval A)]"]) (simp_all add: s1_def)
      have t1: "same_tensors s s1" by (simp add: s1_def same_tensors_def)
      have unf: "evaluation_phase C A i s =
        (case score_name A of
           None \<Rightarrow> dump_phase C A i s1
         | Some name \<Rightarrow>
            (case stats name of
               None \<Rightarrow> Raise KeyError s1
             | Some score \<Rightarrow>
                (case lr_scheduler A of
                   None \<Rightarrow> dump_phase C A i (improvement_phase C A score s1)
                 | Some sched \<Rightarrow>
                     let s2 = s1\<lparr> world := sched score (world s1),
                                 trace := trace s1 @ [Scheduler_step score] \<rparr>
                     in if get_lr C (world s2) = 0 then Break s2
                        else dump_phase C A i (improvement_phase C A score s2))))"
        unfolding s1_def using nz False by (simp add: evaluation_phase_def Some e Let_def)
      show ?thesis
      proof (cases "score_name A")
        case None
        then show ?thesis using dump_phase_after[OF a1 t1, where C=C and A=A and i=i] by (simp add: unf)
      next
        case sn: (Some name)
        show ?thesis
        proof (cases "stats name")
          case None
          then show ?thesis using a1 t1 by (simp add: unf sn tail_flow_def)
        next
          case sc: (Some score)
          show ?thesis
          proof (cases "lr_scheduler A")
            case None
            have "appends {K_other} s (improvement_phase C A score s1)"
              "same_tensors s (improvement_phase C A score s1)"
              using appends_trans[OF a1 improvement_phase_appends]
                same_tensors_trans[OF t1 improvement_phase_same_tensors] by blast+
            from dump_phase_after[OF this, where C=C and A=A and i=i] show ?thesis
              by (simp add: unf sn sc None)
          next
            case sch: (Some sched)
            define s2 where "s2 = s1\<lparr> world := sched score (world s1),
                                       trace := trace s1 @ [Scheduler_step score] \<rparr>"
            have a2: "appends {K_other} s s2"
              by (rule appends_trans[OF a1], rule appendsI[where ev="[Scheduler_step score]"])
                 (simp_all add: s2_def)
            have t2: "same_tensors s s2" using t1 by (simp add: s2_def same_tensors_def)
            show ?thesis
            proof (cases "get_lr C (world s2) = 0")
              case True
              have "evaluation_phase C A i s = Break s2"
                using True by (simp add: unf sn sc sch s2_def Let_def)
              moreover have "last (trace s2) = Scheduler_step score" by (simp add: s2_def)
              ultimately show ?thesis
                using a2 t2 True Some sn sch by (simp add: tail_flow_def)
            next
              case False
              have "appends {K_other} s (improvement_phase C A score s2)"
                "same_tensors s (improvement_phase C A score s2)"
                using appends_trans[OF a2 improvement_phase_appends]
                  same_tensors_trans[OF t2 improvement_phase_same_tensors] by blast+
              from dump_phase_after[OF this, where C=C and A=A and i=i] show ?thesis
                using False by (simp add: unf sn sc sch s2_def[symmetric] Let_def)
            qed
          qed
        qed
      qed
    qed
  qed
qed

lemma logging_phase_flow: "tail_flow C A s (logging_phase C A i s)"
  using evaluation_phase_flow[where C=C and A=A and i=i and s=s]
  by (simp add: logging_phase_def appends_refl same_tensors_refl tail_flow_def)

text \<open>One iteration of the update loop.\<close>

lemma begin_update_fields:
  "trace (begin_update i s) = trace s @ [Update_begin i]"
  "same_tensors s (begin_update i s)"
  "world (begin_update i s) = world s"
  by (simp_all add: begin_update_def same_tensors_def)

lemma save_latest_fields:
  "trace (save_latest s) = trace s"
  "observations (save_latest s) = map (\<lambda>ob. ob[0 := last ob]) (observations s)"
  by (simp_all add: save_latest_def)

lemma shaped_save_slot: "shaped (Suc k) n ob \<Longrightarrow> shaped (Suc k) n (ob[0 := last ob])"
proof -
  assume a: "shaped (Suc k) n ob"
  then have "ob \<noteq> []" by (auto simp: shaped_def)
  then have "last ob \<in> set ob" by simp
  then have "length (last ob) = n" using a by (simp add: shaped_def)
  then show ?thesis using a by (rule shaped_update[rotated])
qed

lemma save_latest_wf: "wf_state cfg s \<Longrightarrow> wf_state cfg (save_latest s)"
  by (simp add: wf_state_def save_latest_def shaped_save_slot)

lemma update_iteration_structure:
  fixes C :: "'w collaborators" and cfg A i s
  assumes wf: "wf_state cfg s" and env: "env_shaped cfg C" and model: "model_shaped C"
    and obs: "obs_sizes cfg \<noteq> []"
  defines "s1 \<equiv> rollout C cfg (begin_update i s)"
  defines "f \<equiv> update_iteration C cfg A i s"
  shows "\<exists>eu et. trace (flow_state f) =
            trace s @ Update_begin i # map Env_step (actions s1) @ eu @ et @
              (case f of Continue s' \<Rightarrow> [Update_end i] | Break s' \<Rightarrow> [] | Raise e s' \<Rightarrow> []) \<and>
            kind_of ` set eu \<subseteq> {K_sampler, K_minibatch, K_update} \<and>
            kind_of ` set et \<subseteq> {K_other}"
    and "length (actions s1) = t_max cfg"
    and "observations (flow_state f) = map (\<lambda>ob. ob[0 := last ob]) (observations s1)"
    and "wf_state cfg (flow_state f)"
    and "case f of
           Break s' \<Rightarrow> evaluator A \<noteq> None \<and> score_name A \<noteq> None \<and> lr_scheduler A \<noteq> None \<and>
                       get_lr C (world s') = 0 \<and> (\<exists>score. last (trace s') = Scheduler_step score)
         | Continue s' \<Rightarrow> True
         | Raise e s' \<Rightarrow> True"
proof -
  define s0 where "s0 = begin_update i s"
  define s2 where "s2 = calculate_returns C cfg s1"
  define s3 where "s3 = ppo_update C cfg s2"
  define s4 where "s4 = save_latest s3"
  define g where "g = logging_phase C A i s4"
  have wf0: "wf_state cfg s0"
    using wf same_tensors_wf[OF begin_update_fields(2), of cfg i s] by (simp add: s0_def)
  have wf1: "wf_state cfg s1"
    unfolding s1_def s0_def[symmetric] by (rule rollout_wf[OF env model obs wf0])
  have wf2: "wf_state cfg s2"
    unfolding s2_def by (rule calculate_returns_wf[OF wf1 model obs])
  have t3: "same_tensors s2 s3" unfolding s3_def by (rule ppo_update_same_tensors)
  have wf3: "wf_state cfg s3" using wf2 same_tensors_wf[OF t3] by simp
  have wf4: "wf_state cfg s4" unfolding s4_def by (rule save_latest_wf[OF wf3])
  have tf: "tail_flow C A s4 g" unfolding g_def by (rule logging_phase_flow)
  have wfg: "wf_state cfg (flow_state g)"
    using tf wf4 same_tensors_wf[of s4 "flow_state g" cfg] by (simp add: tail_flow_def)
  have tr1: "trace s1 = trace s @ Update_begin i # map Env_step (actions s1)"
    using rollout_trace[OF wf0 env model obs] by (simp add: s1_def s0_def begin_update_fields)
  have tr2: "trace s2 = trace s1" by (simp add: s2_def calculate_returns_fields)
  obtain eu where eu: "trace s3 = trace s2 @ eu" "kind_of ` set eu \<subseteq> {K_sampler, K_minibatch, K_update}"
    using ppo_update_appends[of s2 C cfg] unfolding appends_def s3_def by blast
  have tr4: "trace s4 = trace s3" by (simp add: s4_def save_latest_fields)
  obtain et where et: "trace (flow_state g) = trace s4 @ et" "kind_of ` set et \<subseteq> {K_other}"
    using tf unfolding tail_flow_def appends_def by blast
  have f: "f = (case g of Continue s' \<Rightarrow> Continue (s'\<lparr> trace := trace s' @ [Update_end i] \<rparr>)
                | Break s' \<Rightarrow> Break s' | Raise e s' \<Rightarrow> Raise e s')"
    by (simp add: f_def update_iteration_def g_def s4_def s3_def s2_def s1_def)
  have trf: "trace (flow_state f) = trace (flow_state g) @
               (case f of Continue s' \<Rightarrow> [Update_end i] | Break s' \<Rightarrow> [] | Raise e s' \<Rightarrow> [])"
    unfolding f by (cases g) simp_all
  have "trace (flow_state f) =
            trace s @ Update_begin i # map Env_step (actions s1) @ eu @ et @
              (case f of Continue s' \<Rightarrow> [Update_end i] | Break s' \<Rightarrow> [] | Raise e s' \<Rightarrow> [])"
    unfolding trf et(1) tr4 eu(1) tr2 by (subst tr1) simp
  then show "\<exists>eu et. trace (flow_state f) =
            trace s @ Update_begin i # map Env_step (actions s1) @ eu @ et @
              (case f of Continue s' \<Rightarrow> [Update_end i] | Break s' \<Rightarrow> [] | Raise e s' \<Rightarrow> []) \<and>
            kind_of ` set eu \<subseteq> {K_sampler, K_minibatch, K_update} \<and>
            kind_of ` set et \<subseteq> {K_other}"
    using eu(2) et(2) by blast
  show "length (actions s1) = t_max cfg" using wf1 by (simp add: wf_state_def shaped_def)
  have og: "observations (flow_state g) = observations s4"
    using tf by (simp add: tail_flow_def same_tensors_def)
  have of': "observations (flow_state f) = observations (flow_state g)"
    unfolding f by (cases g) simp_all
  have o3: "observations s3 = observations s1"
    using t3 by (simp add: same_tensors_def s2_def calculate_returns_fields)
  show "observations (flow_state f) = map (\<lambda>ob. ob[0 := last ob]) (observations s1)"
    by (simp add: of' og s4_def save_latest_fields o3)
  have "same_tensors (flow_state g) (flow_state f)"
    unfolding f by (cases g) (simp_all add: same_tensors_def)
  then show "wf_state cfg (flow_state f)" using wfg same_tensors_wf by blast
  show "case f of
           Break s' \<Rightarrow> evaluator A \<noteq> None \<and> score_name A \<noteq> None \<and> lr_scheduler A \<noteq> None \<and>
                       get_lr C (world s') = 0 \<and> (\<exists>score. last (trace s') = Scheduler_step score)
         | Continue s' \<Rightarrow> True
         | Raise e s' \<Rightarrow> True"
    using tf unfolding f by (cases g) (simp_all add: tail_flow_def)
qed

text \<open>
  Claim C4. An update iteration first collects the rollout: after the marker of its
  start, the first \<open>t_max\<close> calls are the \<^verbatim>\<open>env.step\<close> calls with the stored actions,
  one per rollout step and each for all workers at once, and no \<^verbatim>\<open>env.step\<close>
  follows them; so every \<^verbatim>\<open>model.update\<close> of the iteration comes after the whole
  rollout. For every step \<open>k < t_max\<close> the tensors hold at the end of the rollout what
  pass \<open>k\<close> read: the sampled actions, the log-probabilities of the chosen actions, the
  value predictions, the rewards, the done masks, and in slot \<open>k + 1\<close> the (masked) next
  observations.
\<close>

theorem rollout_before_update:
  assumes wf: "wf_state cfg s" and env: "env_shaped cfg C" and model: "model_shaped C"
    and obs: "obs_sizes cfg \<noteq> []" and k: "k < t_max cfg" and j: "j < length (obs_sizes cfg)"
  shows "let s0 = begin_update i s;
             sk = foldl (rollout_step C) s0 [0..<k];
             s1 = rollout C cfg s0;
             ev = new_events s (flow_state (update_iteration C cfg A i s))
         in length (actions s1) = t_max cfg \<and>
            take (t_max cfg + 1) ev = Update_begin i # map Env_step (actions s1) \<and>
            K_step \<notin> set (map kind_of (drop (t_max cfg + 1) ev)) \<and>
            K_update \<notin> set (map kind_of (take (t_max cfg + 1) ev)) \<and>
            actions s1 ! k = step_actions C sk k \<and>
            old_log_probs s1 ! k = get_log_probs (fst (step_forward C sk k)) (step_actions C sk k) \<and>
            value_predictions s1 ! k = snd (step_forward C sk k) \<and>
            rewards s1 ! k = fst (snd (step_env C sk k)) \<and>
            masks s1 ! k = done_masks (snd (snd (step_env C sk k))) \<and>
            observations s1 ! j ! (k + 1) =
              mask_state (done_masks (snd (snd (step_env C sk k)))) (fst (step_env C sk k) ! j)"
proof -
  define s0 where "s0 = begin_update i s"
  define s1 where "s1 = rollout C cfg s0"
  define f where "f = update_iteration C cfg A i s"
  define ev where "ev = new_events s (flow_state f)"
  have wf0: "wf_state cfg s0"
    using wf same_tensors_wf[OF begin_update_fields(2), of cfg i s] by (simp add: s0_def)
  note st1 = update_iteration_structure(1)[OF wf env model obs, where i=i and A=A,
      folded s0_def, folded s1_def f_def]
  note st2 = update_iteration_structure(2)[OF wf env model obs, where i=i,
      folded s0_def, folded s1_def]
  obtain eu et where tr: "trace (flow_state f) =
            trace s @ Update_begin i # map Env_step (actions s1) @ eu @ et @
              (case f of Continue s' \<Rightarrow> [Update_end i] | Break s' \<Rightarrow> [] | Raise e s' \<Rightarrow> [])"
    and eu: "kind_of ` set eu \<subseteq> {K_sampler, K_minibatch, K_update}"
    and et: "kind_of ` set et \<subseteq> {K_other}"
    using st1 by blast
  define rest where "rest = eu @ et @
              (case f of Continue s' \<Rightarrow> [Update_end i] | Break s' \<Rightarrow> [] | Raise e s' \<Rightarrow> [])"
  have len: "length (actions s1) = t_max cfg" by (rule st2)
  have ev: "ev = (Update_begin i # map Env_step (actions s1)) @ rest"
    unfolding ev_def rest_def by (rule new_events_append) (simp add: tr)
  have lp: "length (Update_begin i # map Env_step (actions s1)) = t_max cfg + 1"
    by (simp add: len)
  have tk: "take (t_max cfg + 1) ev = Update_begin i # map Env_step (actions s1)"
    unfolding ev using lp by (metis append_eq_conv_conj)
  have dr: "drop (t_max cfg + 1) ev = rest"
    unfolding ev using lp by (metis append_eq_conv_conj)
  have "kind_of ` set rest \<subseteq> {K_sampler, K_minibatch, K_update, K_other, K_end}"
    unfolding rest_def using eu et by (cases f) auto
  then have nostep: "K_step \<notin> set (map kind_of rest)" by auto
  have noupd: "K_update \<notin> set (map kind_of (Update_begin i # map Env_step (actions s1)))"
    by auto
  have stored: "actions s1 ! k = step_actions C (foldl (rollout_step C) s0 [0..<k]) k \<and>
        value_predictions s1 ! k = snd (step_forward C (foldl (rollout_step C) s0 [0..<k]) k) \<and>
        old_log_probs s1 ! k = get_log_probs (fst (step_forward C (foldl (rollout_step C) s0 [0..<k]) k))
                                 (step_actions C (foldl (rollout_step C) s0 [0..<k]) k) \<and>
        rewards s1 ! k = fst (snd (step_env C (foldl (rollout_step C) s0 [0..<k]) k)) \<and>
        masks s1 ! k = done_masks (snd (snd (step_env C (foldl (rollout_step C) s0 [0..<k]) k))) \<and>
        observations s1 ! j ! (k + 1) =
          mask_state (done_masks (snd (snd (step_env C (foldl (rollout_step C) s0 [0..<k]) k))))
            (fst (step_env C (foldl (rollout_step C) s0 [0..<k]) k) ! j)"
    using rollout_prefix_stored[OF wf0 env model obs j k order_refl]
    by (simp add: Let_def s1_def rollout_def)
  show ?thesis
    unfolding Let_def s0_def[symmetric] s1_def[symmetric] f_def[symmetric] ev_def[symmetric] tk dr
    using len nostep noupd stored by blast
qed

lemma demo_rollout_tensors:
  "actions (rollout (demo 2) (demo_config 2 2 1)
      (begin_update 1 (initial_state (demo 2) (demo_config 2 2 1) 0))) = [[0, 1], [0, 1]]"
  "rewards (rollout (demo 2) (demo_config 2 2 1)
      (begin_update 1 (initial_state (demo 2) (demo_config 2 2 1) 0))) = [[1, 2], [1, 2]]"
  "masks (rollout (demo 2) (demo_config 2 2 1)
      (begin_update 1 (initial_state (demo 2) (demo_config 2 2 1) 0))) = [[0, 1], [0, 1]]"
  "observations (rollout (demo 2) (demo_config 2 2 1)
      (begin_update 1 (initial_state (demo 2) (demo_config 2 2 1) 0))) = [[[[1], [1]], [[0], [3]], [[0], [3]]]]"
  by (simp_all add: begin_update_def rollout_def rollout_step_def initial_state_def
      demo_def demo_config_def store_slot_def enumerate_eq_zip upt_2 sample_action_def done_masks_def
      mask_state_def Let_def numeral_2_eq_2 upt_rec)

theorem rollout_before_update_witness:
  "wf_state (demo_config 2 2 1) (initial_state (demo 2) (demo_config 2 2 1) 0) \<and>
   env_shaped (demo_config 2 2 1) (demo 2) \<and> model_shaped (demo 2) \<and>
   obs_sizes (demo_config 2 2 1) \<noteq> [] \<and> (1::nat) < t_max (demo_config 2 2 1) \<and>
   (0::nat) < length (obs_sizes (demo_config 2 2 1)) \<and>
   (let s = initial_state (demo 2) (demo_config 2 2 1) 0;
        s1 = rollout (demo 2) (demo_config 2 2 1) (begin_update 1 s);
        ev = new_events s (flow_state (update_iteration (demo 2) (demo_config 2 2 1)
                                         (demo_args 1 False) 1 s))
    in take 3 ev = [Update_begin 1, Env_step [0, 1], Env_step [0, 1]] \<and>
       K_step \<notin> set (map kind_of (drop 3 ev)) \<and>
       actions s1 ! 1 = [0, 1] \<and> rewards s1 ! 1 = [1, 2] \<and> masks s1 ! 1 = [0, 1] \<and>
       observations s1 ! 0 ! 2 = [[0], [3]])"
proof -
  let ?s = "initial_state (demo 2) (demo_config 2 2 1) 0"
  note wf = demo_initial_wf[of 2 2 1 "0::nat"]
  note env = demo_env_shaped[of 2 2 1]
  note m = demo_model_shaped[of 2]
  have obs: "obs_sizes (demo_config 2 2 1) \<noteq> []" and k: "(1::nat) < t_max (demo_config 2 2 1)"
    and j: "(0::nat) < length (obs_sizes (demo_config 2 2 1))"
    by (simp_all add: demo_config_simps)
  have t: "t_max (demo_config 2 2 1) + 1 = 3" by (simp add: demo_config_simps)
  note th = rollout_before_update[OF wf env m obs k j, where i=1 and A="demo_args 1 False",
      unfolded Let_def t demo_rollout_tensors]
  have c: "take 3 (new_events ?s (flow_state (update_iteration (demo 2) (demo_config 2 2 1)
                                         (demo_args 1 False) 1 ?s)))
             = [Update_begin 1, Env_step [0, 1], Env_step [0, 1]]"
    "K_step \<notin> set (map kind_of (drop 3 (new_events ?s (flow_state (update_iteration (demo 2)
                       (demo_config 2 2 1) (demo_args 1 False) 1 ?s)))))"
    using th by simp_all
  have v: "[[0, 1], [0, 1]] ! 1 = [0::nat, 1]" "[[1, 2], [1, 2]] ! 1 = [1::real, 2]"
    "[[0, 1], [0, 1]] ! 1 = [0::real, 1]"
    "[[[[1], [1]], [[0], [3]], [[0], [3]]]] ! 0 ! 2 = [[0::real], [3]]"
    by simp_all
  show ?thesis
    unfolding Let_def demo_rollout_tensors v using wf env m obs k j c by (intro conjI refl)
qed

section \<open>The update loop\<close>

text \<open>The calls of an iteration, whatever the shapes.\<close>

lemma rollout_appends: "appends {K_step} s (rollout C cfg s)"
  unfolding rollout_def by (rule appendsI[OF rollout_prefix_trace]) auto

lemma count_kind_append: "count_kind k (xs @ ys) = count_kind k xs + count_kind k ys"
  by (simp add: count_kind_def)

lemma count_kind_absent: "k \<notin> kind_of ` set es \<Longrightarrow> count_kind k es = 0"
  by (auto simp: count_kind_def filter_empty_conv)

lemma update_iteration_events:
  fixes C :: "'w collaborators" and cfg A i s
  defines "f \<equiv> update_iteration C cfg A i s"
  shows "\<exists>mid. trace (flow_state f) =
            trace s @ Update_begin i # mid @
              (case f of Continue s' \<Rightarrow> [Update_end i] | Break s' \<Rightarrow> [] | Raise e s' \<Rightarrow> []) \<and>
            kind_of ` set mid \<subseteq> {K_step, K_sampler, K_minibatch, K_update, K_other}"
    and "case f of
           Break s' \<Rightarrow> evaluator A \<noteq> None \<and> score_name A \<noteq> None \<and> lr_scheduler A \<noteq> None \<and>
                       get_lr C (world s') = 0 \<and> (\<exists>score. last (trace s') = Scheduler_step score)
         | Continue s' \<Rightarrow> True
         | Raise e s' \<Rightarrow> True"
proof -
  let ?Ks = "{K_step, K_sampler, K_minibatch, K_update, K_other}"
  define s0 where "s0 = begin_update i s"
  define s1 where "s1 = rollout C cfg s0"
  define s2 where "s2 = calculate_returns C cfg s1"
  define s3 where "s3 = ppo_update C cfg s2"
  define s4 where "s4 = save_latest s3"
  define g where "g = logging_phase C A i s4"
  have tf: "tail_flow C A s4 g" unfolding g_def by (rule logging_phase_flow)
  have a1: "appends ?Ks s0 s1"
    unfolding s1_def by (rule appends_mono[OF rollout_appends]) simp
  have a2: "appends ?Ks s1 s2"
    by (rule appendsI[where ev="[]"]) (simp_all add: s2_def calculate_returns_fields)
  have a3: "appends ?Ks s2 s3"
    unfolding s3_def by (rule appends_mono[OF ppo_update_appends]) auto
  have a4: "appends ?Ks s3 s4"
    by (rule appendsI[where ev="[]"]) (simp_all add: s4_def save_latest_fields)
  have a5: "appends ?Ks s4 (flow_state g)"
    using tf by (auto simp: tail_flow_def intro: appends_mono)
  have "appends ?Ks s0 (flow_state g)"
    using a1 a2 a3 a4 a5 by (meson appends_trans)
  then obtain mid where mid: "trace (flow_state g) = trace s0 @ mid" "kind_of ` set mid \<subseteq> ?Ks"
    unfolding appends_def by blast
  have f: "f = (case g of Continue s' \<Rightarrow> Continue (s'\<lparr> trace := trace s' @ [Update_end i] \<rparr>)
                | Break s' \<Rightarrow> Break s' | Raise e s' \<Rightarrow> Raise e s')"
    by (simp add: f_def update_iteration_def g_def s4_def s3_def s2_def s1_def s0_def)
  have trf: "trace (flow_state f) = trace (flow_state g) @
               (case f of Continue s' \<Rightarrow> [Update_end i] | Break s' \<Rightarrow> [] | Raise e s' \<Rightarrow> [])"
    unfolding f by (cases g) simp_all
  have "trace (flow_state f) =
            trace s @ Update_begin i # mid @
              (case f of Continue s' \<Rightarrow> [Update_end i] | Break s' \<Rightarrow> [] | Raise e s' \<Rightarrow> [])"
    unfolding trf mid(1) by (simp add: s0_def begin_update_fields)
  then show "\<exists>mid. trace (flow_state f) =
            trace s @ Update_begin i # mid @
              (case f of Continue s' \<Rightarrow> [Update_end i] | Break s' \<Rightarrow> [] | Raise e s' \<Rightarrow> []) \<and>
            kind_of ` set mid \<subseteq> ?Ks"
    using mid(2) by blast
  show "case f of
           Break s' \<Rightarrow> evaluator A \<noteq> None \<and> score_name A \<noteq> None \<and> lr_scheduler A \<noteq> None \<and>
                       get_lr C (world s') = 0 \<and> (\<exists>score. last (trace s') = Scheduler_step score)
         | Continue s' \<Rightarrow> True
         | Raise e s' \<Rightarrow> True"
    using tf unfolding f by (cases g) (simp_all add: tail_flow_def)
qed

lemma update_iteration_counts:
  fixes C :: "'w collaborators" and cfg A i s
  defines "f \<equiv> update_iteration C cfg A i s"
  shows "\<exists>ev. trace (flow_state f) = trace s @ ev \<and> ev \<noteq> [] \<and>
           count_kind K_begin ev = 1 \<and>
           count_kind K_end ev = (case f of Continue s' \<Rightarrow> 1 | Break s' \<Rightarrow> 0 | Raise e s' \<Rightarrow> 0) \<and>
           count_kind K_reset ev = 0"
proof -
  obtain mid where mid: "trace (flow_state f) =
            trace s @ Update_begin i # mid @
              (case f of Continue s' \<Rightarrow> [Update_end i] | Break s' \<Rightarrow> [] | Raise e s' \<Rightarrow> [])"
    "kind_of ` set mid \<subseteq> {K_step, K_sampler, K_minibatch, K_update, K_other}"
    using update_iteration_events(1)[where C=C and cfg=cfg and A=A and i=i and s=s] unfolding f_def by blast
  define ev where "ev = Update_begin i # mid @
              (case f of Continue s' \<Rightarrow> [Update_end i] | Break s' \<Rightarrow> [] | Raise e s' \<Rightarrow> [])"
  have z: "count_kind K_begin mid = 0" "count_kind K_end mid = 0" "count_kind K_reset mid = 0"
    using mid(2) by (auto intro!: count_kind_absent)
  have c: "count_kind k (e # es) = (if kind_of e = k then 1 else 0) + count_kind k es" for k e es
    by (simp add: count_kind_def)
  define fin where "fin = (case f of Continue s' \<Rightarrow> [Update_end i] | Break s' \<Rightarrow> [] | Raise e s' \<Rightarrow> [])"
  have e: "count_kind K_begin fin = 0" "count_kind K_reset fin = 0"
    "count_kind K_end fin = (case f of Continue s' \<Rightarrow> 1 | Break s' \<Rightarrow> 0 | Raise e s' \<Rightarrow> 0)"
    unfolding fin_def by (cases f, simp_all add: count_kind_def)+
  have evf: "ev = Update_begin i # mid @ fin" by (simp add: ev_def fin_def)
  have "count_kind K_begin ev = 1"
    "count_kind K_end ev = (case f of Continue s' \<Rightarrow> 1 | Break s' \<Rightarrow> 0 | Raise e s' \<Rightarrow> 0)"
    "count_kind K_reset ev = 0"
    unfolding evf by (simp_all add: c count_kind_append z e)
  moreover have "trace (flow_state f) = trace s @ ev" "ev \<noteq> []"
    by (simp_all add: ev_def mid(1))
  ultimately show ?thesis by blast
qed

lemma train_loop_events:
  "\<exists>ev. trace (outcome_state (train_loop C cfg A idxs s)) = trace s @ ev \<and>
         count_kind K_begin ev \<le> length idxs \<and>
         count_kind K_end ev \<le> count_kind K_begin ev \<and>
         count_kind K_reset ev = 0 \<and>
         (returned (train_loop C cfg A idxs s) \<longrightarrow>
            count_kind K_end ev = length idxs \<or>
            (evaluator A \<noteq> None \<and> score_name A \<noteq> None \<and> lr_scheduler A \<noteq> None \<and>
             get_lr C (world (outcome_state (train_loop C cfg A idxs s))) = 0 \<and>
             (\<exists>score. last (trace (outcome_state (train_loop C cfg A idxs s))) = Scheduler_step score)))"
proof (induction idxs arbitrary: s)
  case Nil
  show ?case by (simp add: count_kind_def)
next
  case (Cons i rest)
  define f where "f = update_iteration C cfg A i s"
  obtain ev1 where ev1: "trace (flow_state f) = trace s @ ev1" "ev1 \<noteq> []"
    "count_kind K_begin ev1 = 1"
    "count_kind K_end ev1 = (case f of Continue s' \<Rightarrow> 1 | Break s' \<Rightarrow> 0 | Raise e s' \<Rightarrow> 0)"
    "count_kind K_reset ev1 = 0"
    using update_iteration_counts[where C=C and cfg=cfg and A=A and i=i and s=s] unfolding f_def by blast
  note brk = update_iteration_events(2)[where C=C and cfg=cfg and A=A and i=i and s=s, folded f_def]
  show ?case
  proof (cases f)
    case (Continue s')
    let ?out = "train_loop C cfg A rest s'"
    have unf: "train_loop C cfg A (i # rest) s = ?out"
      using Continue by (simp add: f_def)
    obtain ev2 where ev2: "trace (outcome_state ?out) = trace s' @ ev2"
      "count_kind K_begin ev2 \<le> length rest"
      "count_kind K_end ev2 \<le> count_kind K_begin ev2"
      "count_kind K_reset ev2 = 0"
      "returned ?out \<longrightarrow> count_kind K_end ev2 = length rest \<or>
            (evaluator A \<noteq> None \<and> score_name A \<noteq> None \<and> lr_scheduler A \<noteq> None \<and>
             get_lr C (world (outcome_state ?out)) = 0 \<and>
             (\<exists>score. last (trace (outcome_state ?out)) = Scheduler_step score))"
      using Cons[of s'] by blast
    have t: "trace (outcome_state ?out) = trace s @ (ev1 @ ev2)"
      using ev1(1) ev2(1) Continue by simp
    have c: "count_kind K_begin (ev1 @ ev2) \<le> length (i # rest)"
      "count_kind K_end (ev1 @ ev2) \<le> count_kind K_begin (ev1 @ ev2)"
      "count_kind K_reset (ev1 @ ev2) = 0"
      "count_kind K_end (ev1 @ ev2) = Suc (count_kind K_end ev2)"
      using ev1(3-5) ev2(2-4) Continue by (simp_all add: count_kind_append)
    have r: "returned ?out \<longrightarrow> count_kind K_end (ev1 @ ev2) = length (i # rest) \<or>
            (evaluator A \<noteq> None \<and> score_name A \<noteq> None \<and> lr_scheduler A \<noteq> None \<and>
             get_lr C (world (outcome_state ?out)) = 0 \<and>
             (\<exists>score. last (trace (outcome_state ?out)) = Scheduler_step score))"
      using ev2(5) c(4) by auto
    show ?thesis unfolding unf using t c(1-3) r by blast
  next
    case (Break s')
    have unf: "train_loop C cfg A (i # rest) s = Returned s'"
      using Break by (simp add: f_def)
    have c: "count_kind K_begin ev1 \<le> length (i # rest)" "count_kind K_end ev1 \<le> count_kind K_begin ev1"
      using ev1(3,4) Break by simp_all
    have b: "evaluator A \<noteq> None \<and> score_name A \<noteq> None \<and> lr_scheduler A \<noteq> None \<and>
             get_lr C (world s') = 0 \<and> (\<exists>score. last (trace s') = Scheduler_step score)"
      using brk Break by simp
    have t: "trace s' = trace s @ ev1" using ev1(1) Break by simp
    show ?thesis unfolding unf using t c ev1(5) b by auto
  next
    case (Raise e s')
    have unf: "train_loop C cfg A (i # rest) s = Raised e s'"
      using Raise by (simp add: f_def)
    have c: "count_kind K_begin ev1 \<le> length (i # rest)" "count_kind K_end ev1 \<le> count_kind K_begin ev1"
      using ev1(3,4) Raise by simp_all
    have t: "trace s' = trace s @ ev1" using ev1(1) Raise by simp
    show ?thesis unfolding unf using t c ev1(5) by auto
  qed
qed

lemma initial_state_trace: "trace (initial_state C cfg w) = [Env_reset]"
  by (simp add: initial_state_def split: prod.splits)

text \<open>
  Claim C7. A call of \<^verbatim>\<open>train\<close> starts at most \<open>max_updates\<close> update iterations
  (none when \<open>max_updates\<close> is not positive), and it never completes more than it
  started. When the call returns having completed fewer than \<open>max_updates\<close> iterations,
  then an evaluator, a score name and a scheduler were supplied, the last call was a
  scheduler step, and the learning rate of the optimizer is exactly \<open>0\<close>: the loop left
  through its \<^verbatim>\<open>break\<close>. (A call that ends in a Python exception, as for an interval
  of \<open>0\<close>, does not return; it is the outcome \<open>Raised\<close>.)
\<close>

theorem train_loop_bounded:
  "let out = train C cfg A w; tr = trace (outcome_state out)
   in int (count_kind K_begin tr) \<le> max 0 (max_updates A) \<and>
      count_kind K_end tr \<le> count_kind K_begin tr \<and>
      (returned out \<and> int (count_kind K_end tr) < max_updates A \<longrightarrow>
         evaluator A \<noteq> None \<and> score_name A \<noteq> None \<and> lr_scheduler A \<noteq> None \<and>
         get_lr C (world (outcome_state out)) = 0 \<and>
         (\<exists>score. last tr = Scheduler_step score))"
proof -
  define out where "out = train C cfg A w"
  obtain ev where ev: "trace (outcome_state out) = [Env_reset] @ ev"
    "count_kind K_begin ev \<le> length [1..max_updates A]"
    "count_kind K_end ev \<le> count_kind K_begin ev"
    "returned out \<longrightarrow> count_kind K_end ev = length [1..max_updates A] \<or>
            (evaluator A \<noteq> None \<and> score_name A \<noteq> None \<and> lr_scheduler A \<noteq> None \<and>
             get_lr C (world (outcome_state out)) = 0 \<and>
             (\<exists>score. last (trace (outcome_state out)) = Scheduler_step score))"
    using train_loop_events[of C cfg A "[1..max_updates A]" "initial_state C cfg w"]
    unfolding out_def train_def initial_state_trace by blast
  have len: "int (length [1..max_updates A]) = max 0 (max_updates A)" by simp
  have k: "count_kind K_begin ([Env_reset] @ ev) = count_kind K_begin ev"
    "count_kind K_end ([Env_reset] @ ev) = count_kind K_end ev"
    by (simp_all add: count_kind_def)
  have 1: "int (count_kind K_begin (trace (outcome_state out))) \<le> max 0 (max_updates A)"
    unfolding ev(1) k using ev(2) len by linarith
  have 2: "count_kind K_end (trace (outcome_state out)) \<le> count_kind K_begin (trace (outcome_state out))"
    unfolding ev(1) k by (rule ev(3))
  have 3: "evaluator A \<noteq> None \<and> score_name A \<noteq> None \<and> lr_scheduler A \<noteq> None \<and>
         get_lr C (world (outcome_state out)) = 0 \<and>
         (\<exists>score. last (trace (outcome_state out)) = Scheduler_step score)"
    if "returned out" "int (count_kind K_end (trace (outcome_state out))) < max_updates A"
  proof -
    have "int (count_kind K_end ev) < max_updates A" using that(2) unfolding ev(1) k .
    then have "count_kind K_end ev \<noteq> length [1..max_updates A]" using len by linarith
    then show ?thesis using ev(4) that(1) by blast
  qed
  show ?thesis
    unfolding Let_def out_def[symmetric] using 1 2 3 by blast
qed

lemma demo_first_iteration_continues:
  "\<exists>s'. update_iteration (demo n) cfg (demo_args m b) 1 s = Continue s'"
  by (simp add: update_iteration_def logging_phase_def evaluation_phase_def dump_phase_def demo_args_def)

lemma demo_second_iteration_breaks:
  "\<exists>s'. update_iteration (demo n) cfg (demo_args m True) 2 s = Break s'"
  by (simp add: update_iteration_def logging_phase_def evaluation_phase_def dump_phase_def
      demo_args_def demo_def Let_def)

lemma upto_1_5: "[1..5] = 1 # 2 # [3..5::int]"
  by (simp add: upto.simps)

theorem train_loop_bounded_witness:
  "returned (train (demo 1) (demo_config 1 1 1) (demo_args 5 True) 0) \<and>
   int (count_kind K_end (trace (outcome_state (train (demo 1) (demo_config 1 1 1) (demo_args 5 True) 0))))
     < max_updates (demo_args 5 True) \<and>
   count_kind K_begin (trace (outcome_state (train (demo 1) (demo_config 1 1 1) (demo_args 5 True) 0))) = 2 \<and>
   count_kind K_end (trace (outcome_state (train (demo 1) (demo_config 1 1 1) (demo_args 5 True) 0))) = 1 \<and>
   evaluator (demo_args 5 True) \<noteq> None \<and> score_name (demo_args 5 True) \<noteq> None \<and>
   lr_scheduler (demo_args 5 True) \<noteq> None \<and>
   get_lr (demo 1) (world (outcome_state (train (demo 1) (demo_config 1 1 1) (demo_args 5 True) 0))) = 0 \<and>
   (\<exists>score. last (trace (outcome_state (train (demo 1) (demo_config 1 1 1) (demo_args 5 True) 0)))
              = Scheduler_step score)"
proof -
  let ?C = "demo 1" and ?cfg = "demo_config 1 1 1" and ?A = "demo_args 5 True"
  define s0 where "s0 = initial_state ?C ?cfg (0::nat)"
  obtain s1 where f1: "update_iteration ?C ?cfg ?A 1 s0 = Continue s1"
    using demo_first_iteration_continues by blast
  obtain s2 where f2: "update_iteration ?C ?cfg ?A 2 s1 = Break s2"
    using demo_second_iteration_breaks by blast
  have m: "max_updates ?A = 5" by (simp add: demo_args_def)
  have out: "train ?C ?cfg ?A 0 = Returned s2"
    by (simp only: train_def m upto_1_5 s0_def[symmetric] train_loop.simps f1 f2 flow.case)
  obtain ev1 where ev1: "trace s1 = trace s0 @ ev1" "count_kind K_begin ev1 = 1" "count_kind K_end ev1 = 1"
    using update_iteration_counts[where C="?C" and cfg="?cfg" and A="?A" and i=1 and s=s0]
    unfolding f1 by auto
  obtain ev2 where ev2: "trace s2 = trace s1 @ ev2" "count_kind K_begin ev2 = 1" "count_kind K_end ev2 = 0"
    using update_iteration_counts[where C="?C" and cfg="?cfg" and A="?A" and i=2 and s=s1]
    unfolding f2 by auto
  have tr: "trace s2 = [Env_reset] @ ev1 @ ev2"
    by (simp add: ev2(1) ev1(1) s0_def initial_state_trace)
  have r: "count_kind K_begin [Env_reset] = 0" "count_kind K_end [Env_reset] = 0"
    by (simp_all add: count_kind_def)
  have b: "count_kind K_begin (trace s2) = 2" and e: "count_kind K_end (trace s2) = 1"
    unfolding tr count_kind_append ev1 ev2 r by simp_all
  have h: "returned (train ?C ?cfg ?A 0) \<and>
           int (count_kind K_end (trace (outcome_state (train ?C ?cfg ?A 0)))) < max_updates ?A"
    unfolding out using e m by simp
  from train_loop_bounded[of ?C ?cfg ?A 0, unfolded Let_def] h
  have c: "evaluator ?A \<noteq> None \<and> score_name ?A \<noteq> None \<and> lr_scheduler ?A \<noteq> None \<and>
           get_lr ?C (world (outcome_state (train ?C ?cfg ?A 0))) = 0 \<and>
           (\<exists>score. last (trace (outcome_state (train ?C ?cfg ?A 0))) = Scheduler_step score)"
    by blast
  have b': "count_kind K_begin (trace (outcome_state (train ?C ?cfg ?A 0))) = 2"
    and e': "count_kind K_end (trace (outcome_state (train ?C ?cfg ?A 0))) = 1"
    unfolding out using b e by simp_all
  show ?thesis using h b' e' c by blast
qed

lemma iteration_states_length: "length (iteration_states C cfg A idxs s) \<le> length idxs"
proof (induction idxs arbitrary: s)
  case Nil
  show ?case by simp
next
  case (Cons i rest)
  show ?case using Cons by (cases "update_iteration C cfg A i s") (simp_all add: le_SucI)
qed

lemma iteration_states_first:
  "iteration_states C cfg A idxs s \<noteq> [] \<Longrightarrow> iteration_states C cfg A idxs s ! 0 = s"
  by (cases idxs) simp_all

lemma iteration_states_link:
  assumes env: "env_shaped cfg C" and model: "model_shaped C" and obs: "obs_sizes cfg \<noteq> []"
    and j: "j < length (obs_sizes cfg)"
  shows "wf_state cfg s \<Longrightarrow> Suc k < length (iteration_states C cfg A idxs s) \<Longrightarrow>
     observations (iteration_states C cfg A idxs s ! Suc k) ! j ! 0 =
       observations (rollout C cfg (begin_update (idxs ! k) (iteration_states C cfg A idxs s ! k)))
         ! j ! t_max cfg"
proof (induction idxs arbitrary: s k)
  case Nil
  then show ?case by simp
next
  case (Cons i rest)
  define f where "f = update_iteration C cfg A i s"
  define s1 where "s1 = rollout C cfg (begin_update i s)"
  obtain s' where f: "f = Continue s'"
    using Cons.prems(2) by (cases f) (simp_all add: f_def)
  have ss: "iteration_states C cfg A (i # rest) s = s # iteration_states C cfg A rest s'"
    using f by (simp add: f_def)
  have ne: "iteration_states C cfg A rest s' \<noteq> []" using Cons.prems(2) ss by auto
  note st = update_iteration_structure(3,4)[OF Cons.prems(1) env model obs, where i=i and A=A,
      folded f_def, folded s1_def]
  have wf': "wf_state cfg s'" using st(2) f by simp
  show ?case
  proof (cases k)
    case 0
    have wf0: "wf_state cfg (begin_update i s)"
      using Cons.prems(1) same_tensors_wf[OF begin_update_fields(2), of cfg i s] by simp
    have wf1: "wf_state cfg s1" unfolding s1_def by (rule rollout_wf[OF env model obs wf0])
    have lo: "length (observations s1) = length (obs_sizes cfg)"
      and lj: "length (observations s1 ! j) = Suc (t_max cfg)"
      using wf1 j by (simp_all add: wf_state_def shaped_def)
    have "observations s' ! j ! 0 = last (observations s1 ! j)"
      using st(1) f lo lj j by simp
    also have "\<dots> = observations s1 ! j ! t_max cfg" using lj by (rule last_slot)
    finally show ?thesis
      unfolding ss using 0 ne by (simp add: iteration_states_first s1_def)
  next
    case (Suc k')
    have "Suc k' < length (iteration_states C cfg A rest s')"
      using Cons.prems(2) Suc ss by simp
    from Cons.IH[OF wf' this] show ?thesis unfolding ss using Suc by simp
  qed
qed

text \<open>
  Claim C6. Training is one trajectory: slot \<open>0\<close> of every observation tensor holds, at
  the start of the first iteration, the observation that \<^verbatim>\<open>env.reset\<close> returned,
  and at the start of every later iteration the observation in the final slot \<open>t_max\<close>
  of the rollout of the iteration before (for all workers at once); and a call of
  \<^verbatim>\<open>train\<close> calls \<^verbatim>\<open>env.reset\<close> exactly once.
\<close>

theorem continuous_trajectory:
  assumes env: "env_shaped cfg C" and model: "model_shaped C" and obs: "obs_sizes cfg \<noteq> []"
    and j: "j < length (obs_sizes cfg)"
  shows "let s0 = initial_state C cfg w;
             ss = iteration_states C cfg A [1..max_updates A] s0
         in observations s0 ! j ! 0 = fst (env_reset C (net_mode C True w)) ! j \<and>
            (ss \<noteq> [] \<longrightarrow> ss ! 0 = s0) \<and>
            (\<forall>k. Suc k < length ss \<longrightarrow>
               observations (ss ! Suc k) ! j ! 0 =
                 observations (rollout C cfg (begin_update (int k + 1) (ss ! k))) ! j ! t_max cfg) \<and>
            count_kind K_reset (trace (outcome_state (train C cfg A w))) = 1"
proof -
  define s0 where "s0 = initial_state C cfg w"
  define ss where "ss = iteration_states C cfg A [1..max_updates A] s0"
  have wf0: "wf_state cfg s0" unfolding s0_def by (rule initial_state_wf[OF env])
  obtain fo w1 where r: "env_reset C (net_mode C True w) = (fo, w1)" by (metis prod.exhaust)
  have lfo: "length fo = length (obs_sizes cfg)"
    using env r unfolding env_shaped_def shaped_def by (metis fst_conv)
  have 1: "observations s0 ! j ! 0 = fst (env_reset C (net_mode C True w)) ! j"
    using j lfo by (simp add: s0_def initial_state_def r nth_store_slot)
  have 2: "ss \<noteq> [] \<longrightarrow> ss ! 0 = s0"
    unfolding ss_def using iteration_states_first by blast
  have 3: "observations (ss ! Suc k) ! j ! 0 =
             observations (rollout C cfg (begin_update (int k + 1) (ss ! k))) ! j ! t_max cfg"
    if k: "Suc k < length ss" for k
  proof -
    have "length ss \<le> length [1..max_updates A]"
      unfolding ss_def by (rule iteration_states_length)
    then have "1 + int k \<le> max_updates A" using k by simp
    then have "[1..max_updates A] ! k = int k + 1" by (simp add: nth_upto)
    then show ?thesis
      using iteration_states_link[OF env model obs j wf0, of k A "[1..max_updates A]"] k
      by (simp add: ss_def)
  qed
  obtain ev where ev: "trace (outcome_state (train C cfg A w)) = [Env_reset] @ ev"
    "count_kind K_reset ev = 0"
    using train_loop_events[of C cfg A "[1..max_updates A]" "initial_state C cfg w"]
    unfolding train_def initial_state_trace by blast
  have 4: "count_kind K_reset (trace (outcome_state (train C cfg A w))) = 1"
    unfolding ev(1) count_kind_append ev(2) by (simp add: count_kind_def)
  show ?thesis
    unfolding Let_def s0_def[symmetric] ss_def[symmetric] using 1 2 3 4 by blast
qed

lemma demo_single_rollout:
  "observations (initial_state (demo 1) (demo_config 1 1 1) 0) = [[[[1]], [[0]]]]"
  "observations (rollout (demo 1) (demo_config 1 1 1)
      (begin_update 1 (initial_state (demo 1) (demo_config 1 1 1) 0))) = [[[[1]], [[0]]]]"
  by (simp_all add: begin_update_def rollout_def rollout_step_def initial_state_def
      demo_def demo_config_def store_slot_def enumerate_eq_zip sample_action_def done_masks_def
      mask_state_def Let_def)

theorem continuous_trajectory_witness:
  "env_shaped (demo_config 1 1 1) (demo 1) \<and> model_shaped (demo 1) \<and>
   obs_sizes (demo_config 1 1 1) \<noteq> [] \<and> (0::nat) < length (obs_sizes (demo_config 1 1 1)) \<and>
   (let s0 = initial_state (demo 1) (demo_config 1 1 1) 0;
        ss = iteration_states (demo 1) (demo_config 1 1 1) (demo_args 5 True) [1..5] s0
    in length ss = 2 \<and> ss ! 0 = s0 \<and>
       observations s0 ! 0 ! 0 = [[1]] \<and>
       observations (ss ! Suc 0) ! 0 ! 0 = [[0]] \<and>
       observations (rollout (demo 1) (demo_config 1 1 1) (begin_update 1 s0)) ! 0 ! 1 = [[0]] \<and>
       count_kind K_reset (trace (outcome_state (train (demo 1) (demo_config 1 1 1) (demo_args 5 True) 0))) = 1)"
proof -
  let ?C = "demo 1" and ?cfg = "demo_config 1 1 1" and ?A = "demo_args 5 True"
  define s0 where "s0 = initial_state ?C ?cfg (0::nat)"
  define ss where "ss = iteration_states ?C ?cfg ?A [1..5] s0"
  note env = demo_env_shaped[of 1 1 1]
  note m = demo_model_shaped[of 1]
  have obs: "obs_sizes ?cfg \<noteq> []" and j: "(0::nat) < length (obs_sizes ?cfg)"
    by (simp_all add: demo_config_simps)
  obtain s1 where f1: "update_iteration ?C ?cfg ?A 1 s0 = Continue s1"
    using demo_first_iteration_continues by blast
  obtain s2 where f2: "update_iteration ?C ?cfg ?A 2 s1 = Break s2"
    using demo_second_iteration_breaks by blast
  have ss: "ss = [s0, s1]"
    by (simp only: ss_def upto_1_5 iteration_states.simps f1 f2 flow.case)
  have mu: "max_updates ?A = 5" by (simp add: demo_args_def)
  have t: "t_max ?cfg = 1" by (simp add: demo_config_simps)
  note th = continuous_trajectory[OF env m obs j, of "0::nat" ?A,
      unfolded Let_def mu s0_def[symmetric] ss_def[symmetric]]
  have l: "length ss = 2" and z: "ss ! 0 = s0" by (simp_all add: ss)
  have k: "Suc 0 < length ss" by (simp add: ss)
  have o0: "observations s0 ! 0 ! 0 = [[1]]"
    unfolding s0_def demo_single_rollout by simp
  have o1: "observations (rollout ?C ?cfg (begin_update 1 s0)) ! 0 ! 1 = [[0]]"
    unfolding s0_def demo_single_rollout by simp
  have "observations (ss ! Suc 0) ! 0 ! 0 =
          observations (rollout ?C ?cfg (begin_update (int 0 + 1) (ss ! 0))) ! 0 ! t_max ?cfg"
    using th k by blast
  then have o2: "observations (ss ! Suc 0) ! 0 ! 0 = [[0]]"
    using o1 t by (simp add: z)
  have c: "count_kind K_reset (trace (outcome_state (train ?C ?cfg ?A 0))) = 1"
    using th by blast
  show ?thesis
    unfolding Let_def s0_def[symmetric] ss_def[symmetric]
    using env m obs j l z o0 o2 o1 c by (intro conjI)
qed

end
